theory Spec2Isabelle
  imports Complex_Main "HOL-Library.AList" "HOL-Library.Sublist"
begin

section \<open>JavaScript values and built-ins used by \<open>shared/js/moz_intl.js\<close>\<close>

text \<open>
  A finite JavaScript number is modelled by its exact value, a rational (\<^typ>\<open>rat\<close>).
  Results of \<open>Math.round\<close> and \<open>Math.floor\<close> are integers and are kept as
  \<^typ>\<open>int\<close>. The non-finite numbers appear where the source tests for them or can
  produce them. The arithmetic of the duration and relative-time functions
  (\<open>/\<close>, \<open>*\<close>, \<open>-\<close>, \<open><\<close>) is exact arithmetic here. The scaled value of
  \<open>getFormattedUnit\<close> is computed with the binary64 rounding of every operation,
  defined below: there \<open>Math.round\<close> is applied to a product that the rounding of
  doubles can move across a half.
\<close>

datatype number = Finite rat | NaN | PosInfinity | NegInfinity

text \<open>\<open>Math.round\<close> rounds to the nearest integer, a tie going towards \<open>+\<infinity>\<close>.\<close>

definition Math_round :: "rat \<Rightarrow> int" where
  "Math_round x = \<lfloor>x + 1 / 2\<rfloor>"

definition Math_floor :: "rat \<Rightarrow> int" where
  "Math_floor x = \<lfloor>x\<rfloor>"

text \<open>
  The binary64 value of an exact result (IEEE 754, round to nearest, ties to even), which
  is what \<open>/\<close> and \<open>*\<close> on two Numbers return. \<open>bit_length n\<close> is the number of
  binary digits of a positive integer; \<open>binary_exponent x\<close> is the \<open>e\<close> with
  \<open>2 ^ e \<le> |x| < 2 ^ (e + 1)\<close>, found from the bit lengths of numerator and
  denominator. A double has 53 significant bits, so the spacing at \<open>x\<close> is
  \<open>2 ^ (e - 52)\<close>, with the exponent not below \<open>-1022\<close> (the subnormal range); the
  result is the multiple of the spacing nearest to \<open>x\<close>. It overflows to an infinity
  when its magnitude reaches \<open>2 ^ 1024\<close>: the exponent is above 1023, or it is 1023 and
  the mantissa rounds up to \<open>2 ^ 53 = 9007199254740992\<close>. The sign of a zero is not
  modelled.
\<close>

function bit_length :: "int \<Rightarrow> int" where
  "bit_length n = (if n \<le> 0 then 0 else 1 + bit_length (n div 2))"
  by pat_completeness auto
termination
  by (relation "measure nat") auto

definition binary_exponent :: "rat \<Rightarrow> int" where
  "binary_exponent x =
     (let (p, q) = quotient_of \<bar>x\<bar>;
          d = bit_length p - bit_length q
      in if 2 powi d \<le> \<bar>x\<bar> then d else d - 1)"

definition round_half_even :: "rat \<Rightarrow> int" where
  "round_half_even y =
     (let f = \<lfloor>y\<rfloor>; r = y - of_int f
      in if r < 1 / 2 then f
         else if 1 / 2 < r then f + 1
         else if even f then f else f + 1)"

definition binary64 :: "rat \<Rightarrow> number" where
  "binary64 x =
     (if x = 0 then Finite 0
      else (let e = max (binary_exponent x) (- 1022);
                m = round_half_even (x / 2 powi (e - 52))
            in if 1024 \<le> e \<or> (e = 1023 \<and> 9007199254740992 \<le> \<bar>m\<bar>)
               then (if 0 < x then PosInfinity else NegInfinity)
               else Finite (of_int m * 2 powi (e - 52))))"

text \<open>
  \<open>n / c\<close> and \<open>n * c\<close> for a Number \<open>n\<close> and a positive finite constant \<open>c\<close>, and
  \<open>Math.round\<close> of a Number; an infinity and \<open>NaN\<close> pass through.
\<close>

fun number_divide :: "number \<Rightarrow> rat \<Rightarrow> number" where
  "number_divide (Finite a) c = binary64 (a / c)"
| "number_divide NaN c = NaN"
| "number_divide PosInfinity c = PosInfinity"
| "number_divide NegInfinity c = NegInfinity"

fun number_times :: "number \<Rightarrow> rat \<Rightarrow> number" where
  "number_times (Finite a) c = binary64 (a * c)"
| "number_times NaN c = NaN"
| "number_times PosInfinity c = PosInfinity"
| "number_times NegInfinity c = NegInfinity"

fun Math_round_number :: "number \<Rightarrow> number" where
  "Math_round_number (Finite a) = Finite (of_int (Math_round a))"
| "Math_round_number NaN = NaN"
| "Math_round_number PosInfinity = PosInfinity"
| "Math_round_number NegInfinity = NegInfinity"

text \<open>
  \<open>isNaN(parseInt(v))\<close> for a number \<open>v\<close>: \<open>parseInt\<close> reads the decimal text of
  \<open>v\<close>. The text of a finite number starts with an optional minus sign and a digit, so
  an integer is read; the texts \<open>NaN\<close>, \<open>Infinity\<close> and \<open>-Infinity\<close> give \<open>NaN\<close>.
\<close>

fun isNaN_parseInt :: "number \<Rightarrow> bool" where
  "isNaN_parseInt (Finite x) = False"
| "isNaN_parseInt NaN = True"
| "isNaN_parseInt PosInfinity = True"
| "isNaN_parseInt NegInfinity = True"

text \<open>The exceptions the file throws, or that the engine throws for it.\<close>

datatype error =
  Error string
  | RangeError string
  | TypeError

text \<open>
  \<open>String.prototype.indexOf\<close>: the position of the first occurrence of \<open>t\<close> in \<open>s\<close>,
  or \<open>-1\<close>. A string is the list of its code units.
\<close>

fun indexOf :: "string \<Rightarrow> string \<Rightarrow> int" where
  "indexOf [] t = (if t = [] then 0 else -1)"
| "indexOf (c # cs) t =
     (if prefix t (c # cs) then 0
      else (let r = indexOf cs t in if r < 0 then -1 else r + 1))"

text \<open>
  \<open>String.prototype.substring(start, end)\<close>: both arguments are clamped to
  \<open>0 .. length\<close>, and swapped when \<open>start\<close> is the larger.
\<close>

definition substring :: "string \<Rightarrow> int \<Rightarrow> int \<Rightarrow> string" where
  "substring s start fin =
     (let len = int (length s);
          a = min (max start 0) len;
          b = min (max fin 0) len;
          from = min a b;
          to = max a b
      in take (nat (to - from)) (drop (nat from) s))"

text \<open>
  \<open>String.prototype.replace\<close> with a string pattern: the first occurrence is replaced
  (the replacement texts of this file are formatted numbers).
\<close>

fun replace :: "string \<Rightarrow> string \<Rightarrow> string \<Rightarrow> string" where
  "replace [] t r = (if t = [] then r else [])"
| "replace (c # cs) t r =
     (if prefix t (c # cs) then r @ drop (length t) (c # cs)
      else c # replace cs t r)"

text \<open>\<open>Array.prototype.indexOf\<close>, and reading an array at an index (\<open>undefined\<close> out of range).\<close>

fun array_indexOf :: "'a list \<Rightarrow> 'a \<Rightarrow> int" where
  "array_indexOf [] x = -1"
| "array_indexOf (y # ys) x =
     (if y = x then 0
      else (let r = array_indexOf ys x in if r < 0 then -1 else r + 1))"

definition array_get :: "'a list \<Rightarrow> int \<Rightarrow> 'a option" where
  "array_get xs i = (if 0 \<le> i \<and> i < int (length xs) then Some (xs ! nat i) else None)"

section \<open>The tables\<close>

definition durationFormatOrder :: "string list" where
  "durationFormatOrder = [''hour'', ''minute'', ''second'', ''millisecond'']"

record duration_element =
  elem_value :: rat
  elem_token :: string

definition durationFormatElements :: "(string \<times> duration_element) list" where
  "durationFormatElements =
     [(''hour'', \<lparr>elem_value = 3600000, elem_token = ''hh''\<rparr>),
      (''minute'', \<lparr>elem_value = 60000, elem_token = ''mm''\<rparr>),
      (''second'', \<lparr>elem_value = 1000, elem_token = ''ss''\<rparr>),
      (''millisecond'', \<lparr>elem_value = 10, elem_token = ''SS''\<rparr>)]"

record unit_entry =
  unit_name :: string
  unit_value :: rat

definition unitFormatData :: "(string \<times> unit_entry list) list" where
  "unitFormatData =
     [(''duration'',
        [\<lparr>unit_name = ''second'', unit_value = 1\<rparr>,
         \<lparr>unit_name = ''minute'', unit_value = 60\<rparr>,
         \<lparr>unit_name = ''hour'', unit_value = 60 * 60\<rparr>,
         \<lparr>unit_name = ''day'', unit_value = 24 * 60 * 60\<rparr>,
         \<lparr>unit_name = ''month'', unit_value = 30 * 24 * 60 * 60\<rparr>]),
      (''digital'',
        [\<lparr>unit_name = ''byte'', unit_value = 1\<rparr>,
         \<lparr>unit_name = ''kilobyte'', unit_value = 1024\<rparr>,
         \<lparr>unit_name = ''megabyte'', unit_value = 1024 * 1024\<rparr>,
         \<lparr>unit_name = ''gigabyte'', unit_value = 1024 * 1024 * 1024\<rparr>,
         \<lparr>unit_name = ''terabyte'', unit_value = 1024 * 1024 * 1024 * 1024\<rparr>])]"

record unit_group =
  group_units :: "string list"
  group_styles :: "string list"
  group_rounding :: rat

text \<open>
  The rounding factor of the digital group is the double that the literal \<open>0.8\<close>
  denotes, \<open>3602879701896397 / 2 ^ 52\<close>.
\<close>

definition unitFormatGroups :: "(string \<times> unit_group) list" where
  "unitFormatGroups =
     [(''duration'',
        \<lparr>group_units = [''second'', ''minute'', ''hour'', ''day'', ''month''],
         group_styles = [''narrow''],
         group_rounding = 1\<rparr>),
      (''digital'',
        \<lparr>group_units = [''byte'', ''kilobyte'', ''megabyte'', ''gigabyte'', ''terabyte''],
         group_styles = [''short''],
         group_rounding = 3602879701896397 / 4503599627370496\<rparr>)]"

section \<open>DurationFormat\<close>

text \<open>
  \<open>getDurationUnitIdx(name, defaultValue)\<close>: \<open>!name\<close> holds of the empty string.
\<close>

definition getDurationUnitIdx :: "string \<Rightarrow> int \<Rightarrow> error + int" where
  "getDurationUnitIdx name defaultValue =
     (if name = [] then Inr defaultValue
      else (let pos = array_indexOf durationFormatOrder name
            in if pos = -1 then Inl (Error (''Unknown unit type: '' @ name))
               else Inr pos))"

text \<open>
  \<open>splitIntoTimeUnits(v, maxUnitIdx, minUnitIdx)\<close>. The object \<open>units\<close> is the list of
  its properties in insertion order; \<open>units[key] = n\<close> is \<^const>\<open>AList.update\<close>. The
  loop variable \<open>i\<close>, the running \<open>input\<close> and \<open>units\<close> are the arguments of the loop.
  Where \<open>durationFormatOrder[i]\<close> is \<open>undefined\<close> the element looked up is
  \<open>undefined\<close> too, and destructuring it throws a \<open>TypeError\<close>.
\<close>

function splitIntoTimeUnits_loop ::
  "int \<Rightarrow> int \<Rightarrow> rat \<Rightarrow> (string \<times> int) list \<Rightarrow> error + (string \<times> int) list" where
  "splitIntoTimeUnits_loop i minUnitIdx input units =
     (if i \<le> minUnitIdx then
        (case array_get durationFormatOrder i of
           None \<Rightarrow> Inl TypeError
         | Some key \<Rightarrow>
            (case map_of durationFormatElements key of
               None \<Rightarrow> Inl TypeError
             | Some e \<Rightarrow>
                (let n = (if i = minUnitIdx
                          then Math_round (input / elem_value e)
                          else Math_floor (input / elem_value e))
                 in splitIntoTimeUnits_loop (i + 1) minUnitIdx
                      (input - of_int n * elem_value e)
                      (AList.update key n units))))
      else Inr units)"
  by pat_completeness auto
termination
  by (relation "measure (\<lambda>(i, minUnitIdx, input, units). nat (minUnitIdx + 1 - i))") auto

definition splitIntoTimeUnits :: "rat \<Rightarrow> int \<Rightarrow> int \<Rightarrow> error + (string \<times> int) list" where
  "splitIntoTimeUnits v maxUnitIdx minUnitIdx =
     splitIntoTimeUnits_loop maxUnitIdx minUnitIdx \<bar>v\<bar> []"

text \<open>
  \<open>trimDurationPattern(string, maxUnit, minUnit)\<close>. Reading \<open>.token\<close> of the element of
  a name that is not in the table throws a \<open>TypeError\<close>.
\<close>

definition trimDurationPattern :: "string \<Rightarrow> string \<Rightarrow> string \<Rightarrow> error + string" where
  "trimDurationPattern string maxUnit minUnit =
     (case map_of durationFormatElements maxUnit of
        None \<Rightarrow> Inl TypeError
      | Some maxE \<Rightarrow>
         (case map_of durationFormatElements minUnit of
            None \<Rightarrow> Inl TypeError
          | Some minE \<Rightarrow>
             (let maxToken = elem_token maxE;
                  minToken = elem_token minE
              in Inr (substring string
                        (indexOf string maxToken)
                        (indexOf string minToken + int (length minToken))))))"

text \<open>
  \<open>DurationFormat(locales, options)\<close>. The options are the two keys the caller may
  give; \<open>Object.assign\<close> puts them over the defaults \<open>hour\<close> and \<open>second\<close>. The
  formatter is what the closure \<open>format\<close> reads: the resolved options and the two
  indices. The pattern \<open>fmt\<close> that the localization lookup resolves to and the number
  formatter are arguments of \<open>format\<close>.
\<close>

record duration_options =
  opt_maxUnit :: "string option"
  opt_minUnit :: "string option"

record duration_formatter =
  resolved_maxUnit :: string
  resolved_minUnit :: string
  maxUnitIdx :: int
  minUnitIdx :: int

definition DurationFormat :: "duration_options \<Rightarrow> error + duration_formatter" where
  "DurationFormat options =
     (let maxU = (case opt_maxUnit options of None \<Rightarrow> ''hour'' | Some u \<Rightarrow> u);
          minU = (case opt_minUnit options of None \<Rightarrow> ''second'' | Some u \<Rightarrow> u)
      in case getDurationUnitIdx maxU 0 of
           Inl e \<Rightarrow> Inl e
         | Inr maxI \<Rightarrow>
            (case getDurationUnitIdx minU (int (length durationFormatOrder) - 1) of
               Inl e \<Rightarrow> Inl e
             | Inr minI \<Rightarrow>
                Inr \<lparr>resolved_maxUnit = maxU, resolved_minUnit = minU,
                     maxUnitIdx = maxI, minUnitIdx = minI\<rparr>))"

text \<open>
  The first statement of \<open>format\<close>: the input rounded to the closest multiple of the
  value of \<open>minUnit\<close>.
\<close>

definition format_input :: "duration_formatter \<Rightarrow> rat \<Rightarrow> error + rat" where
  "format_input f input =
     (case map_of durationFormatElements (resolved_minUnit f) of
        None \<Rightarrow> Inl TypeError
      | Some e \<Rightarrow>
         (let minValue = elem_value e
          in Inr (of_int (Math_round (input / minValue)) * minValue)))"

text \<open>The local \<open>duration\<close> of \<open>format\<close>: the breakdown of the rounded input.\<close>

definition format_duration :: "duration_formatter \<Rightarrow> rat \<Rightarrow> error + (string \<times> int) list" where
  "format_duration f input =
     (case format_input f input of
        Inl e \<Rightarrow> Inl e
      | Inr input' \<Rightarrow> splitIntoTimeUnits input' (maxUnitIdx f) (minUnitIdx f))"

text \<open>The \<open>for (unit in duration)\<close> loop of \<open>format\<close>, over the properties in order.\<close>

fun format_fill :: "(int \<Rightarrow> string) \<Rightarrow> (string \<times> int) list \<Rightarrow> string \<Rightarrow> error + string" where
  "format_fill numFormat [] string = Inr string"
| "format_fill numFormat ((unit, n) # rest) string =
     (case map_of durationFormatElements unit of
        None \<Rightarrow> Inl TypeError
      | Some e \<Rightarrow> format_fill numFormat rest (replace string (elem_token e) (numFormat n)))"

definition format :: "duration_formatter \<Rightarrow> string \<Rightarrow> (int \<Rightarrow> string) \<Rightarrow> rat \<Rightarrow> error + string" where
  "format f fmt numFormat input =
     (case format_input f input of
        Inl e \<Rightarrow> Inl e
      | Inr input' \<Rightarrow>
         (case splitIntoTimeUnits input' (maxUnitIdx f) (minUnitIdx f) of
            Inl e \<Rightarrow> Inl e
          | Inr duration \<Rightarrow>
             (case trimDurationPattern fmt (resolved_maxUnit f) (resolved_minUnit f) of
                Inl e \<Rightarrow> Inl e
              | Inr string \<Rightarrow>
                 (case format_fill numFormat duration string of
                    Inl e \<Rightarrow> Inl e
                  | Inr string' \<Rightarrow>
                     if input' < 0 then Inr (''-'' @ string') else Inr string'))))"

section \<open>RelativeTimeFormat\<close>

text \<open>\<open>computeTimeUnits(v)\<close>: the object \<open>units\<close> with its nine properties.\<close>

record time_units =
  millisecond :: int
  second :: int
  minute :: int
  hour :: int
  day :: int
  week :: int
  month :: int
  quarter :: int
  year :: int

definition computeTimeUnits :: "rat \<Rightarrow> time_units" where
  "computeTimeUnits v =
     (let millisecond = Math_round v;
          second = Math_round (of_int millisecond / 1000);
          minute = Math_round (of_int second / 60);
          hour = Math_round (of_int minute / 60);
          day = Math_round (of_int hour / 24);
          rawYear = of_int day * 400 / 146097
      in \<lparr>millisecond = millisecond,
          second = second,
          minute = minute,
          hour = hour,
          day = day,
          week = Math_round (of_int day / 7),
          month = Math_round (rawYear * 12),
          quarter = Math_round (rawYear * 4),
          year = Math_round rawYear\<rparr>)"

text \<open>\<open>getBestMatchUnit(units)\<close>; the tests of \<open>second\<close> and \<open>quarter\<close> are commented out in the source.\<close>

definition getBestMatchUnit :: "time_units \<Rightarrow> string" where
  "getBestMatchUnit units =
     (if \<bar>minute units\<bar> < 45 then ''minute''
      else if \<bar>hour units\<bar> < 22 then ''hour''
      else if \<bar>day units\<bar> < 7 then ''day''
      else if \<bar>week units\<bar> < 4 then ''week''
      else if \<bar>month units\<bar> < 11 then ''month''
      else ''year'')"

text \<open>\<open>units[unit]\<close> for a property name: \<open>None\<close> is \<open>undefined\<close>.\<close>

definition units_get :: "time_units \<Rightarrow> string \<Rightarrow> int option" where
  "units_get units unit =
     map_of
       [(''millisecond'', millisecond units),
        (''second'', second units),
        (''minute'', minute units),
        (''hour'', hour units),
        (''day'', day units),
        (''week'', week units),
        (''month'', month units),
        (''quarter'', quarter units),
        (''year'', year units)] unit"

text \<open>
  \<open>relativeTimeFormatId(x, options)\<close>, with the value of \<open>Date.now()\<close> as an argument.
  The options object is present; an option that is absent is \<open>None\<close>. With \<open>v\<close> undefined, \<open>v < 0\<close> is false and
  \<open>Math.abs(v)\<close> is \<open>NaN\<close>; an absent unit is spelled \<open>undefined\<close> in the entry.
  \<open>options.style || 'long'\<close> takes \<open>long\<close> for an absent and for an empty style.
\<close>

record relative_options =
  opt_unit :: "string option"
  opt_style :: "string option"

record relative_id =
  id_unit :: string
  id_value :: number

definition relativeTimeFormatId :: "rat \<Rightarrow> relative_options \<Rightarrow> rat \<Rightarrow> relative_id" where
  "relativeTimeFormatId x options now =
     (let ms = x - now;
          units = computeTimeUnits ms;
          unit = (if opt_unit options = Some ''bestFit''
                  then Some (getBestMatchUnit units) else opt_unit options);
          v = (case unit of None \<Rightarrow> None | Some u \<Rightarrow> units_get units u);
          tl = (case v of None \<Rightarrow> ''-until''
                | Some n \<Rightarrow> if n < 0 then ''-ago'' else ''-until'');
          style = (case opt_style options of
                     None \<Rightarrow> ''long''
                   | Some s \<Rightarrow> if s = [] then ''long'' else s);
          entry = (case unit of None \<Rightarrow> ''undefined'' | Some u \<Rightarrow> u) @ ''s'' @ tl @ ''-'' @ style
      in \<lparr>id_unit = entry,
          id_value = (case v of None \<Rightarrow> NaN | Some n \<Rightarrow> Finite (of_int \<bar>n\<bar>))\<rparr>)"

section \<open>UnitFormat and getFormattedUnit\<close>

text \<open>\<open>getUnitFormatGroupName(unitName)\<close>: the first group, in the order of the table, that lists the unit.\<close>

definition getUnitFormatGroupName :: "string \<Rightarrow> string option" where
  "getUnitFormatGroupName unitName =
     map_option fst (find (\<lambda>(groupName, g). unitName \<in> set (group_units g)) unitFormatGroups)"

text \<open>
  \<open>UnitFormat(locales, options)\<close> gives the message id that its \<open>format\<close> passes to
  the localization lookup, or throws.
\<close>

definition UnitFormat :: "string \<Rightarrow> string \<Rightarrow> error + string" where
  "UnitFormat unit style =
     (case getUnitFormatGroupName unit of
        None \<Rightarrow> Inl (RangeError (''invalid value '' @ unit @ '' for option unit''))
      | Some unitGroup \<Rightarrow>
         (case map_of unitFormatGroups unitGroup of
            None \<Rightarrow> Inl TypeError
          | Some g \<Rightarrow>
             if style \<notin> set (group_styles g)
             then Inl (RangeError (''invalid value '' @ style @ '' for option style''))
             else Inr (unitGroup @ ''-'' @ unit @ ''-'' @ style)))"

text \<open>
  The \<open>for\<close> loop of \<open>getFormattedUnit\<close> that picks \<open>scale\<close>: \<open>i\<close> and \<open>scale\<close> are the
  arguments, \<open>break\<close> returns.
\<close>

function getFormattedUnit_scale :: "unit_entry list \<Rightarrow> rat \<Rightarrow> rat \<Rightarrow> nat \<Rightarrow> nat \<Rightarrow> nat" where
  "getFormattedUnit_scale units rounding v i scale =
     (if i < length units then
        (if v < unit_value (units ! i) * rounding then i - 1
         else if i = length units - 1
           then getFormattedUnit_scale units rounding v (i + 1) i
           else getFormattedUnit_scale units rounding v (i + 1) scale)
      else scale)"
  by pat_completeness auto
termination
  by (relation "measure (\<lambda>(units, rounding, v, i, scale). length units - i)") auto

text \<open>
  What \<open>getFormattedUnit\<close> returns: the promise of \<open>undefined\<close>, or the promise of the
  localization lookup \<open>formatValue(id, {value})\<close>. The guard comes first, as in the
  source; past it the number is finite (the last branch is never taken). The products
  \<open>units[i].value * rounding\<close> of the two tables are doubles exactly, so the
  comparisons of the loop are exact; the value
  \<open>Math.round(v / units[scale].value * 100) / 100\<close> is computed in binary64, for the
  double whose exact value is \<open>v\<close>.
\<close>

datatype formatted = Resolved_undefined | FormatValue string number

definition getFormattedUnit :: "string \<Rightarrow> string \<Rightarrow> number \<Rightarrow> error + formatted" where
  "getFormattedUnit type style v =
     (if isNaN_parseInt v then Inr Resolved_undefined
      else case v of
        Finite x \<Rightarrow>
         (case map_of unitFormatData type of
            None \<Rightarrow> Inl (RangeError (''invalid type '' @ type))
          | Some units \<Rightarrow>
             (case map_of unitFormatGroups type of
                None \<Rightarrow> Inl TypeError
              | Some g \<Rightarrow>
                 if style \<notin> set (group_styles g)
                 then Inl (RangeError (''invalid style '' @ style @ '' for type '' @ type))
                 else
                   (let scale = getFormattedUnit_scale units (group_rounding g) x 1 0
                    in case array_get units (int scale) of
                         None \<Rightarrow> Inl TypeError
                       | Some u \<Rightarrow>
                          (let val = number_divide (Math_round_number
                                       (number_times (number_divide v (unit_value u)) 100)) 100
                           in case UnitFormat (unit_name u) style of
                                Inl e \<Rightarrow> Inl e
                              | Inr unit \<Rightarrow> Inr (FormatValue unit val)))))
      | _ \<Rightarrow> Inr Resolved_undefined)"

section \<open>Definitions for stating the properties\<close>

text \<open>
  The ordered threshold table of 4.4: a unit name, the magnitude it tests and the bound;
  the first entry whose magnitude is below its bound wins, and \<open>year\<close> is the default.
\<close>

definition bestFit_thresholds :: "(string \<times> (time_units \<Rightarrow> int) \<times> int) list" where
  "bestFit_thresholds =
     [(''minute'', minute, 45), (''hour'', hour, 22), (''day'', day, 7),
      (''week'', week, 4), (''month'', month, 11)]"

definition bestFit_spec :: "time_units \<Rightarrow> string" where
  "bestFit_spec units =
     (case find (\<lambda>(name, field, limit). \<bar>field units\<bar> < limit) bestFit_thresholds of
        Some (name, field, limit) \<Rightarrow> name
      | None \<Rightarrow> ''year'')"

text \<open>
  The scale in the words of the specification (4.6): walking the units from the second
  index upward, the first index \<open>i\<close> with
  \<open>magnitude < units[i].baseValue * roundingFactor\<close> gives the scale \<open>i - 1\<close>; with no
  such index the scale is the last unit.
\<close>

definition selectScale_spec :: "unit_entry list \<Rightarrow> rat \<Rightarrow> rat \<Rightarrow> nat" where
  "selectScale_spec units roundingFactor magnitude =
     (case find (\<lambda>i. magnitude < unit_value (units ! i) * roundingFactor) [1..<length units] of
        Some i \<Rightarrow> i - 1
      | None \<Rightarrow> length units - 1)"

text \<open>
  The value of the duration unit at an index of \<open>durationFormatOrder\<close>, as an integer
  (3600000, 60000, 1000 and 10 for the indices 0 to 3); the number of base units that a
  breakdown stands for, \<open>\<Sum> magnitude[u] * value[u]\<close>; and the breakdown of a
  non-negative integer \<open>K\<close> in closed form: the unit at \<open>maxUnitIdx\<close> gets
  \<open>K div value\<close>, every unit after it gets what is left below the unit before it.
\<close>

definition unit_size :: "int \<Rightarrow> int" where
  "unit_size i =
     (case array_get durationFormatOrder i of
        None \<Rightarrow> 0
      | Some key \<Rightarrow>
         (case map_of durationFormatElements key of
            None \<Rightarrow> 0
          | Some e \<Rightarrow> \<lfloor>elem_value e\<rfloor>))"

definition breakdown_total :: "(string \<times> int) list \<Rightarrow> rat" where
  "breakdown_total units =
     sum_list (map (\<lambda>(key, n). of_int n *
        (case map_of durationFormatElements key of None \<Rightarrow> 0 | Some e \<Rightarrow> elem_value e)) units)"

definition breakdown_digits :: "int \<Rightarrow> int \<Rightarrow> int \<Rightarrow> (string \<times> int) list" where
  "breakdown_digits K i m =
     map (\<lambda>j. (durationFormatOrder ! nat j,
                (if j = i then K else K mod unit_size (j - 1)) div unit_size j)) [i..m]"

section \<open>Rounding\<close>

lemma Math_round_of_int [simp]: "Math_round (of_int a) = a"
  unfolding Math_round_def by linarith

lemma half_window:
  fixes r x :: rat
  assumes "r \<le> x + 1 / 2" and "x + 1 / 2 < r + 1"
  shows "2 * \<bar>r - x\<bar> \<le> 1"
proof (cases "x \<le> r")
  case True
  then have "\<bar>r - x\<bar> = r - x" by simp
  with assms show ?thesis by simp
next
  case False
  then have "\<bar>r - x\<bar> = x - r" by simp
  with assms show ?thesis by simp
qed

lemma Math_round_nearest: "2 * \<bar>of_int (Math_round x) - x\<bar> \<le> 1"
  unfolding Math_round_def
  by (rule half_window) linarith+

section \<open>The binary64 value\<close>

text \<open>
  The exponent that \<open>binary_exponent\<close> computes is the right one, and a finite
  \<open>binary64 x\<close> is a multiple of the spacing at \<open>x\<close> within half a spacing of \<open>x\<close>.
  The examples are the doubles nearest to 0.1 and 0.8, the quotient and the product of
  the scaled value of 3618 seconds, and a tie that goes to the even neighbour. The
  products \<open>units[i].value * rounding\<close> that the loop of \<open>getFormattedUnit\<close> compares
  with are doubles exactly, for both tables.
\<close>

declare bit_length.simps [simp del]

lemma bit_length_bounds:
  "0 < n \<Longrightarrow> 2 ^ nat (bit_length n - 1) \<le> n \<and> n < 2 ^ nat (bit_length n) \<and> 1 \<le> bit_length n"
proof (induction n rule: bit_length.induct)
  case (1 n)
  from "1.prems" have b: "bit_length n = 1 + bit_length (n div 2)"
    using bit_length.simps [of n] by simp
  show ?case
  proof (cases "n div 2 = 0")
    case True
    with "1.prems" have "n = 1" by arith
    with b True show ?thesis
      using bit_length.simps [of 0] by simp
  next
    case False
    with "1.prems" have pos: "0 < n div 2" by arith
    from "1.prems" have "\<not> n \<le> 0" by simp
    from "1.IH" [OF this pos]
    have lo: "2 ^ nat (bit_length (n div 2) - 1) \<le> n div 2"
      and hi: "n div 2 < 2 ^ nat (bit_length (n div 2))"
      and ge: "1 \<le> bit_length (n div 2)" by simp_all
    define B where "B = bit_length (n div 2)"
    from ge have "nat B = Suc (nat (B - 1))"
      unfolding B_def by arith
    then have p1: "(2::int) ^ nat B = 2 * 2 ^ nat (B - 1)"
      by simp
    from ge have p2: "(2::int) ^ nat (1 + B) = 2 * 2 ^ nat B"
      unfolding B_def by (simp add: nat_add_distrib)
    have "2 * (n div 2) \<le> n" and "n < 2 * (n div 2) + 2" by arith+
    with lo hi have "2 ^ nat B \<le> n" and "n < 2 ^ nat (1 + B)"
      unfolding p1 p2 B_def [symmetric] by simp_all
    with ge show ?thesis
      unfolding b B_def by simp
  qed
qed


lemma binary_exponent_bounds:
  assumes "x \<noteq> 0"
  shows "2 powi binary_exponent x \<le> \<bar>x\<bar>" and "\<bar>x\<bar> < 2 powi (binary_exponent x + 1)"
proof -
  obtain p q where pq: "quotient_of \<bar>x\<bar> = (p, q)" by (cases "quotient_of \<bar>x\<bar>")
  then have q: "0 < q" by (rule quotient_of_denom_pos)
  from pq have x: "\<bar>x\<bar> = of_int p / of_int q" by (rule quotient_of_div)
  from assms have "0 < \<bar>x\<bar>" by simp
  with x q have p: "0 < p" by (simp add: zero_less_divide_iff)
  define bp where "bp = bit_length p"
  define bq where "bq = bit_length q"
  from bit_length_bounds [OF p] have p1: "2 ^ nat (bp - 1) \<le> p" and p2: "p < 2 ^ nat bp"
    and p3: "1 \<le> bp" by (simp_all add: bp_def)
  from bit_length_bounds [OF q] have q1: "2 ^ nat (bq - 1) \<le> q" and q2: "q < 2 ^ nat bq"
    and q3: "1 \<le> bq" by (simp_all add: bq_def)
  from p1 have P1: "(2::rat) powi (bp - 1) \<le> of_int p"
    using p3 by (simp add: power_int_def)
  from p2 have P2: "of_int p < (2::rat) powi bp"
    using p3 by (simp add: power_int_def)
  from q1 have Q1: "(2::rat) powi (bq - 1) \<le> of_int q"
    using q3 by (simp add: power_int_def)
  from q2 have Q2: "of_int q \<le> (2::rat) powi bq"
    using q3 by (simp add: power_int_def)
  have up: "\<bar>x\<bar> < 2 powi (bp - bq + 1)"
  proof -
    have "of_int p / of_int q < (2::rat) powi bp / 2 powi (bq - 1)"
      using p P2 Q1 by (intro frac_less) simp_all
    also have "\<dots> = 2 powi (bp - (bq - 1))"
      by (simp add: power_int_diff)
    finally show ?thesis unfolding x by (simp add: algebra_simps)
  qed
  have lo: "2 powi (bp - bq - 1) \<le> \<bar>x\<bar>"
  proof -
    have "(2::rat) powi (bp - 1) / 2 powi bq \<le> of_int p / of_int q"
      using q P1 Q2 p by (intro frac_le) simp_all
    moreover have "(2::rat) powi (bp - 1) / 2 powi bq = 2 powi (bp - 1 - bq)"
      by (simp add: power_int_diff)
    ultimately show ?thesis unfolding x by (simp add: algebra_simps)
  qed
  have e: "binary_exponent x = (if 2 powi (bp - bq) \<le> \<bar>x\<bar> then bp - bq else bp - bq - 1)"
    by (simp add: binary_exponent_def pq bp_def bq_def Let_def)
  show "2 powi binary_exponent x \<le> \<bar>x\<bar>"
    using lo unfolding e by simp
  show "\<bar>x\<bar> < 2 powi (binary_exponent x + 1)"
    using up unfolding e by (simp add: not_le)
qed

lemma round_half_even_near: "2 * \<bar>of_int (round_half_even y) - y\<bar> \<le> 1"
proof -
  have f: "of_int \<lfloor>y\<rfloor> \<le> y" "y < of_int \<lfloor>y\<rfloor> + 1" by linarith+
  define r where "r = y - of_int \<lfloor>y\<rfloor>"
  from f have r: "0 \<le> r" "r < 1" by (simp_all add: r_def)
  have y: "y = of_int \<lfloor>y\<rfloor> + r" by (simp add: r_def)
  consider "r < 1 / 2" | "1 / 2 < r" | "r = 1 / 2" by linarith
  then show ?thesis
  proof cases
    case 1
    then have "round_half_even y = \<lfloor>y\<rfloor>"
      by (simp add: round_half_even_def r_def Let_def)
    then have "of_int (round_half_even y) - y = - r"
      by (simp add: r_def)
    with 1 r show ?thesis by (simp add: abs_if)
  next
    case 2
    then have "round_half_even y = \<lfloor>y\<rfloor> + 1"
      by (simp add: round_half_even_def r_def Let_def)
    then have "of_int (round_half_even y) - y = 1 - r"
      by (simp add: r_def)
    with 2 r show ?thesis by (simp add: abs_if)
  next
    case 3
    then have "round_half_even y = \<lfloor>y\<rfloor> \<or> round_half_even y = \<lfloor>y\<rfloor> + 1"
      by (simp add: round_half_even_def r_def Let_def)
    then have "of_int (round_half_even y) - y = - r \<or> of_int (round_half_even y) - y = 1 - r"
      by (auto simp add: r_def)
    with 3 show ?thesis by (auto simp add: abs_if)
  qed
qed


lemma binary64_finite:
  assumes "binary64 x = Finite y"
  shows "\<exists>m. y = of_int m * 2 powi (max (binary_exponent x) (- 1022) - 52)"
    and "2 * \<bar>y - x\<bar> \<le> 2 powi (max (binary_exponent x) (- 1022) - 52)"
proof -
  define ulp :: rat where "ulp = 2 powi (max (binary_exponent x) (- 1022) - 52)"
  have pos: "0 < ulp" by (simp add: ulp_def)
  define m where "m = round_half_even (x / ulp)"
  have y: "y = of_int m * ulp"
  proof (cases "x = 0")
    case True
    with assms have "y = 0" by (simp add: binary64_def)
    moreover from True have "m = 0" by (simp add: m_def round_half_even_def)
    ultimately show ?thesis by simp
  next
    case False
    with assms show ?thesis
      by (simp add: binary64_def Let_def m_def ulp_def split: if_splits)
  qed
  then show "\<exists>m. y = of_int m * 2 powi (max (binary_exponent x) (- 1022) - 52)"
    unfolding ulp_def by blast
  have "2 * \<bar>of_int m - x / ulp\<bar> \<le> 1"
    unfolding m_def by (rule round_half_even_near)
  with pos have "2 * \<bar>of_int m - x / ulp\<bar> * ulp \<le> 1 * ulp"
    by (intro mult_right_mono) simp_all
  moreover have "\<bar>of_int m - x / ulp\<bar> * ulp = \<bar>y - x\<bar>"
  proof -
    from pos have "(of_int m - x / ulp) * ulp = y - x"
      unfolding y by (simp add: left_diff_distrib)
    then have "\<bar>y - x\<bar> = \<bar>of_int m - x / ulp\<bar> * \<bar>ulp\<bar>"
      by (metis abs_mult)
    with pos show ?thesis by simp
  qed
  ultimately have "2 * \<bar>y - x\<bar> \<le> ulp"
    by simp
  then show "2 * \<bar>y - x\<bar> \<le> 2 powi (max (binary_exponent x) (- 1022) - 52)"
    unfolding ulp_def .
qed

lemma binary64_examples:
  shows "binary64 (1 / 10) = Finite (3602879701896397 / 36028797018963968)"
    and "binary64 (8 / 10) = Finite (3602879701896397 / 4503599627370496)"
    and "binary64 (3618 / 3600) = Finite (1131529406376837 / 1125899906842624)"
    and "binary64 (1131529406376837 / 1125899906842624 * 100)
           = Finite (7072058789855231 / 70368744177664)"
    and "binary64 9007199254740993 = Finite 9007199254740992"
  by code_simp+

lemma thresholds_exact:
  shows "list_all (\<lambda>u. binary64 (unit_value u * 1) = Finite (unit_value u * 1))
           [\<lparr>unit_name = ''second'', unit_value = 1\<rparr>,
            \<lparr>unit_name = ''minute'', unit_value = 60\<rparr>,
            \<lparr>unit_name = ''hour'', unit_value = 60 * 60\<rparr>,
            \<lparr>unit_name = ''day'', unit_value = 24 * 60 * 60\<rparr>,
            \<lparr>unit_name = ''month'', unit_value = 30 * 24 * 60 * 60\<rparr>]"
    and "list_all (\<lambda>u. binary64 (unit_value u * (3602879701896397 / 4503599627370496))
                        = Finite (unit_value u * (3602879701896397 / 4503599627370496)))
           [\<lparr>unit_name = ''byte'', unit_value = 1\<rparr>,
            \<lparr>unit_name = ''kilobyte'', unit_value = 1024\<rparr>,
            \<lparr>unit_name = ''megabyte'', unit_value = 1024 * 1024\<rparr>,
            \<lparr>unit_name = ''gigabyte'', unit_value = 1024 * 1024 * 1024\<rparr>,
            \<lparr>unit_name = ''terabyte'', unit_value = 1024 * 1024 * 1024 * 1024\<rparr>]"
  by code_simp+

section \<open>computeTimeUnits and getBestMatchUnit\<close>

lemma computeTimeUnits_fields:
  shows "millisecond (computeTimeUnits v) = Math_round v"
    and "second (computeTimeUnits v) = Math_round (of_int (millisecond (computeTimeUnits v)) / 1000)"
    and "minute (computeTimeUnits v) = Math_round (of_int (second (computeTimeUnits v)) / 60)"
    and "hour (computeTimeUnits v) = Math_round (of_int (minute (computeTimeUnits v)) / 60)"
    and "day (computeTimeUnits v) = Math_round (of_int (hour (computeTimeUnits v)) / 24)"
    and "week (computeTimeUnits v) = Math_round (of_int (day (computeTimeUnits v)) / 7)"
    and "month (computeTimeUnits v) =
           Math_round (of_int (day (computeTimeUnits v)) * 400 / 146097 * 12)"
    and "quarter (computeTimeUnits v) =
           Math_round (of_int (day (computeTimeUnits v)) * 400 / 146097 * 4)"
    and "year (computeTimeUnits v) = Math_round (of_int (day (computeTimeUnits v)) * 400 / 146097)"
  by (simp_all add: computeTimeUnits_def Let_def)

lemma cascade_differs_from_direct:
  shows "minute (computeTimeUnits 89500) = 2" and "Math_round (89500 / 60000) = 1"
  by code_simp+

text \<open>
  Claim C2: for every input \<open>v\<close>, \<open>computeTimeUnits\<close> returns the cascade
  millisecond = round(v), second = round(millisecond / 1000), minute = round(second / 60),
  hour = round(minute / 60), day = round(hour / 24), week = round(day / 7), and, with the
  raw year day * 400 / 146097, month = round(rawYear * 12), quarter = round(rawYear * 4),
  year = round(rawYear). Each unit is read from the rounded unit before it, not from the
  raw milliseconds: at 89500 ms the cascade gives 2 minutes (90 seconds, then 1.5
  minutes, rounded up), where rounding 89500 / 60000 directly gives 1.
\<close>

theorem computeTimeUnits_cascade:
  "millisecond (computeTimeUnits v) = Math_round v
   \<and> second (computeTimeUnits v) = Math_round (of_int (millisecond (computeTimeUnits v)) / 1000)
   \<and> minute (computeTimeUnits v) = Math_round (of_int (second (computeTimeUnits v)) / 60)
   \<and> hour (computeTimeUnits v) = Math_round (of_int (minute (computeTimeUnits v)) / 60)
   \<and> day (computeTimeUnits v) = Math_round (of_int (hour (computeTimeUnits v)) / 24)
   \<and> week (computeTimeUnits v) = Math_round (of_int (day (computeTimeUnits v)) / 7)
   \<and> month (computeTimeUnits v) =
        Math_round (of_int (day (computeTimeUnits v)) * 400 / 146097 * 12)
   \<and> quarter (computeTimeUnits v) =
        Math_round (of_int (day (computeTimeUnits v)) * 400 / 146097 * 4)
   \<and> year (computeTimeUnits v) = Math_round (of_int (day (computeTimeUnits v)) * 400 / 146097)
   \<and> minute (computeTimeUnits 89500) = 2 \<and> Math_round (89500 / 60000) = 1"
  by (intro conjI computeTimeUnits_fields cascade_differs_from_direct)

lemma getBestMatchUnit_table: "getBestMatchUnit units = bestFit_spec units"
  unfolding getBestMatchUnit_def bestFit_spec_def bestFit_thresholds_def
  by (simp del: abs_less_iff)

lemma getBestMatchUnit_not_second_quarter:
  shows "getBestMatchUnit units \<noteq> ''second''" and "getBestMatchUnit units \<noteq> ''quarter''"
  unfolding getBestMatchUnit_def
  by (simp_all del: abs_less_iff)

lemma getBestMatchUnit_ten_days:
  shows "day (computeTimeUnits 864000000) = 10"
    and "week (computeTimeUnits 864000000) = 1"
    and "getBestMatchUnit (computeTimeUnits 864000000) = ''week''"
  by code_simp+

text \<open>
  Claim C3: for every unit mapping, in particular every one that \<open>computeTimeUnits\<close>
  produces, \<open>getBestMatchUnit\<close> returns the first match of the ordered threshold table
  on absolute magnitudes (minute below 45, hour below 22, day below 7, week below 4, month
  below 11, else year); it never returns \<open>second\<close> or \<open>quarter\<close>; and a difference of
  exactly 10 days (864000000 ms) gives \<open>week\<close>.
\<close>

theorem getBestMatchUnit_first_match:
  "getBestMatchUnit units = bestFit_spec units
   \<and> getBestMatchUnit units =
       (if \<bar>minute units\<bar> < 45 then ''minute''
        else if \<bar>hour units\<bar> < 22 then ''hour''
        else if \<bar>day units\<bar> < 7 then ''day''
        else if \<bar>week units\<bar> < 4 then ''week''
        else if \<bar>month units\<bar> < 11 then ''month''
        else ''year'')
   \<and> getBestMatchUnit units \<noteq> ''second''
   \<and> getBestMatchUnit units \<noteq> ''quarter''
   \<and> getBestMatchUnit (computeTimeUnits 864000000) = ''week''"
  by (intro conjI getBestMatchUnit_table getBestMatchUnit_not_second_quarter
        getBestMatchUnit_ten_days getBestMatchUnit_def)

section \<open>relativeTimeFormatId\<close>

lemma relativeTimeFormatId_difference:
  "x - now = x' - now' \<Longrightarrow>
   relativeTimeFormatId x options now = relativeTimeFormatId x' options now'"
  by (simp add: relativeTimeFormatId_def)

text \<open>
  Claim C5: for a target 2000 ms before \<open>now\<close>, with unit \<open>bestFit\<close> and style
  \<open>long\<close>, the entry should be \<open>minutes-ago-long\<close> with magnitude 0; the doc comment
  of \<open>RelativeTimeFormat\<close> says of the same call that it gives an \<open>ago\<close> text. The
  source does not: the cascade gives minute = 0 and \<open>getBestMatchUnit\<close> picks
  \<open>minute\<close>, but the tense is read from the rounded magnitude, and \<open>0 < 0\<close> is false
  (in the source \<open>Math.round(-2 / 60)\<close> is \<open>-0\<close>, and \<open>-0 < 0\<close> is false), so the
  sign of the past offset is lost. The theorem is the value the source computes at this
  input, for every \<open>now\<close>: the entry \<open>minutes-until-long\<close> with magnitude 0.
\<close>

theorem relativeTimeFormatId_two_seconds_ago:
  "relativeTimeFormatId (now - 2000) \<lparr>opt_unit = Some ''bestFit'', opt_style = Some ''long''\<rparr> now
     = \<lparr>id_unit = ''minutes-until-long'', id_value = Finite 0\<rparr>"
proof -
  have "relativeTimeFormatId (now - 2000)
          \<lparr>opt_unit = Some ''bestFit'', opt_style = Some ''long''\<rparr> now
        = relativeTimeFormatId (- 2000)
          \<lparr>opt_unit = Some ''bestFit'', opt_style = Some ''long''\<rparr> 0"
    by (rule relativeTimeFormatId_difference) simp
  also have "\<dots> = \<lparr>id_unit = ''minutes-until-long'', id_value = Finite 0\<rparr>"
    by code_simp
  finally show ?thesis .
qed

lemma relativeTimeFormatId_entry:
  assumes "opt_unit options = Some given"
    and "unit = (if given = ''bestFit'' then getBestMatchUnit (computeTimeUnits (x - now)) else given)"
    and "units_get (computeTimeUnits (x - now)) unit = Some v"
  shows "relativeTimeFormatId x options now =
           \<lparr>id_unit = unit @ ''s'' @ (if v < 0 then ''-ago'' else ''-until'') @ ''-'' @
                       (case opt_style options of None \<Rightarrow> ''long''
                        | Some s \<Rightarrow> if s = [] then ''long'' else s),
            id_value = Finite (of_int \<bar>v\<bar>)\<rparr>"
proof (cases "given = ''bestFit''")
  case True
  with assms(2,3) have "units_get (computeTimeUnits (x - now))
      (getBestMatchUnit (computeTimeUnits (x - now))) = Some v"
    and "unit = getBestMatchUnit (computeTimeUnits (x - now))"
    by simp_all
  with True assms(1) show ?thesis
    by (simp add: relativeTimeFormatId_def Let_def)
next
  case False
  with assms(2,3) have "units_get (computeTimeUnits (x - now)) given = Some v"
    and "unit = given"
    by simp_all
  with False assms(1) show ?thesis
    by (simp add: relativeTimeFormatId_def Let_def)
qed

lemma units_get_known:
  assumes "unit \<in> set [''millisecond'', ''second'', ''minute'', ''hour'', ''day'', ''week'',
                        ''month'', ''quarter'', ''year'']"
  shows "\<exists>v. units_get units unit = Some v"
  using assms by (auto simp add: units_get_def)

lemma units_get_bestFit: "\<exists>v. units_get units (getBestMatchUnit units) = Some v"
  by (simp add: units_get_def getBestMatchUnit_def del: abs_less_iff)

text \<open>
  Claim C6: for every target time \<open>x\<close>, every \<open>now\<close>, every style and every unit choice
  that is \<open>bestFit\<close> or a property of the unit mapping, \<open>units[unit]\<close> is a number \<open>v\<close>,
  the cascading-rounded magnitude of \<open>x - now\<close> for the unit (the best match for
  \<open>bestFit\<close>), and \<open>relativeTimeFormatId\<close> returns the entry
  unit + \<open>s\<close> + tense + \<open>-\<close> + style, where the tense is \<open>-ago\<close> if \<open>v < 0\<close> and
  \<open>-until\<close> otherwise and the style is \<open>long\<close> when none (or the empty one) is given,
  with the magnitude \<open>|v|\<close>, which is not negative.
\<close>

theorem relativeTimeFormatId_key:
  assumes "opt_unit options = Some given"
    and "given = ''bestFit'' \<or>
         given \<in> set [''millisecond'', ''second'', ''minute'', ''hour'', ''day'', ''week'',
                       ''month'', ''quarter'', ''year'']"
    and "unit = (if given = ''bestFit'' then getBestMatchUnit (computeTimeUnits (x - now)) else given)"
  shows "\<exists>v. units_get (computeTimeUnits (x - now)) unit = Some v
          \<and> relativeTimeFormatId x options now =
               \<lparr>id_unit = unit @ ''s'' @ (if v < 0 then ''-ago'' else ''-until'') @ ''-'' @
                           (case opt_style options of None \<Rightarrow> ''long''
                            | Some s \<Rightarrow> if s = [] then ''long'' else s),
                id_value = Finite (of_int \<bar>v\<bar>)\<rparr>
          \<and> (0::rat) \<le> of_int \<bar>v\<bar>"
proof -
  have "\<exists>v. units_get (computeTimeUnits (x - now)) unit = Some v"
  proof (cases "given = ''bestFit''")
    case True
    with assms(3) show ?thesis by (simp add: units_get_bestFit)
  next
    case False
    with assms(2) have "given \<in> set [''millisecond'', ''second'', ''minute'', ''hour'', ''day'',
        ''week'', ''month'', ''quarter'', ''year'']"
      by blast
    from units_get_known [OF this] False assms(3) show ?thesis by simp
  qed
  then obtain v where v: "units_get (computeTimeUnits (x - now)) unit = Some v" ..
  have "(0::rat) \<le> of_int \<bar>v\<bar>" by simp
  with v relativeTimeFormatId_entry [OF assms(1) assms(3) v] show ?thesis by blast
qed

theorem relativeTimeFormatId_key_witness:
  "units_get (computeTimeUnits (0 - 7200000)) ''hour'' = Some (- 2)
   \<and> relativeTimeFormatId 0 \<lparr>opt_unit = Some ''hour'', opt_style = None\<rparr> 7200000
       = \<lparr>id_unit = ''hours-ago-long'', id_value = Finite 2\<rparr>"
proof -
  have h1: "opt_unit \<lparr>opt_unit = Some ''hour'', opt_style = None\<rparr> = Some ''hour''"
    by simp
  have h2: "''hour'' = ''bestFit'' \<or>
      ''hour'' \<in> set [''millisecond'', ''second'', ''minute'', ''hour'', ''day'', ''week'',
                       ''month'', ''quarter'', ''year'']"
    by simp
  have h3: "''hour'' = (if ''hour'' = ''bestFit''
      then getBestMatchUnit (computeTimeUnits (0 - 7200000)) else ''hour'')"
    by simp
  from relativeTimeFormatId_key [OF h1 h2 h3]
  obtain v where v: "units_get (computeTimeUnits (0 - 7200000)) ''hour'' = Some v"
    and r: "relativeTimeFormatId 0 \<lparr>opt_unit = Some ''hour'', opt_style = None\<rparr> 7200000 =
              \<lparr>id_unit = ''hour'' @ ''s'' @ (if v < 0 then ''-ago'' else ''-until'') @ ''-'' @
                 (case opt_style \<lparr>opt_unit = Some ''hour'', opt_style = None\<rparr> of
                    None \<Rightarrow> ''long'' | Some s \<Rightarrow> if s = [] then ''long'' else s),
               id_value = Finite (of_int \<bar>v\<bar>)\<rparr>"
    by blast
  have e: "units_get (computeTimeUnits (0 - 7200000)) ''hour'' = Some (- 2)"
    by code_simp
  with v have "v = - 2" by simp
  with r e show ?thesis by simp
qed

section \<open>getFormattedUnit: the guard\<close>

text \<open>
  Claim C9 says that a magnitude that is not a finite, parseable number makes
  \<open>getFormattedUnit\<close> fail with an error. The guard of the source returns the resolved
  promise of \<open>undefined\<close> instead. The amended claim: for every magnitude \<open>v\<close> with
  \<open>isNaN(parseInt(v))\<close>, whatever the type and the style, \<open>getFormattedUnit\<close> throws
  nothing and returns the promise resolved with \<open>undefined\<close>.
\<close>

theorem getFormattedUnit_not_a_number:
  "isNaN_parseInt v \<Longrightarrow> getFormattedUnit type style v = Inr Resolved_undefined"
  by (simp add: getFormattedUnit_def)

theorem getFormattedUnit_not_a_number_witness:
  "isNaN_parseInt PosInfinity
   \<and> getFormattedUnit ''length'' ''short'' PosInfinity = Inr Resolved_undefined"
  using getFormattedUnit_not_a_number [of PosInfinity "''length''" "''short''"] by simp

theorem getFormattedUnit_not_a_number_counterexample:
  "isNaN_parseInt NaN \<and> getFormattedUnit ''digital'' ''short'' NaN = Inr Resolved_undefined"
  by (simp add: getFormattedUnit_def)

section \<open>DurationFormat: the unit names and a reversed range\<close>

lemma known_unit_cases:
  "u \<in> set durationFormatOrder \<longleftrightarrow>
     u = ''hour'' \<or> u = ''minute'' \<or> u = ''second'' \<or> u = ''millisecond''"
  by (simp add: durationFormatOrder_def)

lemma getDurationUnitIdx_known:
  assumes "u \<in> set durationFormatOrder"
  shows "getDurationUnitIdx u d = Inr (array_indexOf durationFormatOrder u)"
  using assms unfolding known_unit_cases
  by (auto simp add: getDurationUnitIdx_def durationFormatOrder_def)

lemma DurationFormat_known:
  assumes "maxU \<in> set durationFormatOrder" and "minU \<in> set durationFormatOrder"
  shows "DurationFormat \<lparr>opt_maxUnit = Some maxU, opt_minUnit = Some minU\<rparr> =
           Inr \<lparr>resolved_maxUnit = maxU, resolved_minUnit = minU,
                maxUnitIdx = array_indexOf durationFormatOrder maxU,
                minUnitIdx = array_indexOf durationFormatOrder minU\<rparr>"
  by (simp add: DurationFormat_def getDurationUnitIdx_known [OF assms(1)]
        getDurationUnitIdx_known [OF assms(2)])

lemma elements_known:
  assumes "u \<in> set durationFormatOrder"
  shows "\<exists>e. map_of durationFormatElements u = Some e"
  using assms unfolding known_unit_cases
  by (auto simp add: durationFormatElements_def)

lemma splitIntoTimeUnits_reversed:
  "m < i \<Longrightarrow> splitIntoTimeUnits v i m = Inr []"
  by (simp add: splitIntoTimeUnits_def)

text \<open>
  Claim C4 says that a pair of known unit names given in reverse (the index of
  \<open>maxUnit\<close> above the index of \<open>minUnit\<close>) makes the split fail with an error. The
  source has no such check: \<open>DurationFormat\<close> accepts the pair and the loop of
  \<open>splitIntoTimeUnits\<close> runs no step. The amended claim: for every pair of known unit
  names with index(maxUnit) > index(minUnit), \<open>DurationFormat\<close> returns a formatter, and
  for every duration \<open>splitIntoTimeUnits\<close> on its indices, and the breakdown that
  \<open>format\<close> computes, is the empty breakdown; nothing is thrown.
\<close>

theorem splitIntoTimeUnits_reversed_range:
  assumes "maxU \<in> set durationFormatOrder" and "minU \<in> set durationFormatOrder"
    and "array_indexOf durationFormatOrder minU < array_indexOf durationFormatOrder maxU"
  shows "\<exists>f. DurationFormat \<lparr>opt_maxUnit = Some maxU, opt_minUnit = Some minU\<rparr> = Inr f
          \<and> splitIntoTimeUnits v (maxUnitIdx f) (minUnitIdx f) = Inr []
          \<and> format_duration f d = Inr []"
proof -
  let ?f = "\<lparr>resolved_maxUnit = maxU, resolved_minUnit = minU,
             maxUnitIdx = array_indexOf durationFormatOrder maxU,
             minUnitIdx = array_indexOf durationFormatOrder minU\<rparr>"
  have mk: "DurationFormat \<lparr>opt_maxUnit = Some maxU, opt_minUnit = Some minU\<rparr> = Inr ?f"
    by (rule DurationFormat_known [OF assms(1,2)])
  have sp: "\<And>w. splitIntoTimeUnits w (maxUnitIdx ?f) (minUnitIdx ?f) = Inr []"
    using assms(3) by (simp add: splitIntoTimeUnits_reversed)
  obtain e where "map_of durationFormatElements minU = Some e"
    using elements_known [OF assms(2)] by blast
  then have "format_duration ?f d = Inr []"
    using sp by (simp add: format_duration_def format_input_def Let_def)
  with mk sp show ?thesis by blast
qed

theorem splitIntoTimeUnits_reversed_range_witness:
  "\<exists>f. DurationFormat \<lparr>opt_maxUnit = Some ''second'', opt_minUnit = Some ''hour''\<rparr> = Inr f
        \<and> splitIntoTimeUnits (- 5000) (maxUnitIdx f) (minUnitIdx f) = Inr []
        \<and> format_duration f (- 5000) = Inr []"
  by (rule splitIntoTimeUnits_reversed_range) (simp_all add: durationFormatOrder_def)

theorem splitIntoTimeUnits_reversed_range_counterexample:
  "DurationFormat \<lparr>opt_maxUnit = Some ''second'', opt_minUnit = Some ''hour''\<rparr>
     = Inr \<lparr>resolved_maxUnit = ''second'', resolved_minUnit = ''hour'',
            maxUnitIdx = 2, minUnitIdx = 0\<rparr>
   \<and> splitIntoTimeUnits 5000 2 0 = Inr []"
  by code_simp

section \<open>splitIntoTimeUnits: the breakdown\<close>

declare splitIntoTimeUnits_loop.simps [simp del]

lemma index_cases:
  fixes i :: int
  assumes "0 \<le> i" and "i \<le> 3"
  obtains "i = 0" | "i = 1" | "i = 2" | "i = 3"
  using assms by arith

lemma unit_size_simps:
  shows "unit_size 0 = 3600000" and "unit_size 1 = 60000"
    and "unit_size 2 = 1000" and "unit_size 3 = 10"
  by (simp_all add: unit_size_def array_get_def durationFormatOrder_def
        durationFormatElements_def)

lemma order_lookup:
  assumes "0 \<le> i" and "i \<le> 3"
  shows "array_get durationFormatOrder i = Some (durationFormatOrder ! nat i)"
    and "\<exists>e. map_of durationFormatElements (durationFormatOrder ! nat i) = Some e
           \<and> elem_value e = of_int (unit_size i)"
  using assms
  by (cases i rule: index_cases;
      simp add: unit_size_simps array_get_def durationFormatOrder_def durationFormatElements_def)+

lemma unit_size_pos:
  assumes "0 \<le> i" and "i \<le> 3"
  shows "0 < unit_size i"
  using assms by (cases i rule: index_cases) (simp_all add: unit_size_simps)

lemma unit_size_dvd:
  assumes "0 \<le> i" and "i \<le> j" and "j \<le> 3"
  shows "unit_size j dvd unit_size i"
proof -
  from assms have "i = 0 \<or> i = 1 \<or> i = 2 \<or> i = 3" and "j = 0 \<or> j = 1 \<or> j = 2 \<or> j = 3"
    by arith+
  with assms(2) show ?thesis
    by (auto simp add: unit_size_simps)
qed

lemma order_distinct:
  assumes "0 \<le> i" and "i \<le> 3" and "0 \<le> j" and "j \<le> 3" and "i \<noteq> j"
  shows "durationFormatOrder ! nat i \<noteq> durationFormatOrder ! nat j"
proof -
  from assms have "i = 0 \<or> i = 1 \<or> i = 2 \<or> i = 3" and "j = 0 \<or> j = 1 \<or> j = 2 \<or> j = 3"
    by arith+
  with assms(5) show ?thesis
    by (auto simp add: durationFormatOrder_def)
qed

lemma update_fresh:
  "k \<notin> fst ` set units \<Longrightarrow> AList.update k v units = units @ [(k, v)]"
  by (induction units) auto

lemma loop_past:
  "m < i \<Longrightarrow> splitIntoTimeUnits_loop i m input units = Inr units"
  using splitIntoTimeUnits_loop.simps [of i m input units] by simp

lemma loop_step_floor:
  assumes "0 \<le> i" and "i \<le> 3" and "i < m"
  shows "splitIntoTimeUnits_loop i m (of_int K) units =
           splitIntoTimeUnits_loop (i + 1) m (of_int (K mod unit_size i))
             (AList.update (durationFormatOrder ! nat i) (K div unit_size i) units)"
proof -
  from order_lookup [OF assms(1,2)] obtain e
    where g: "array_get durationFormatOrder i = Some (durationFormatOrder ! nat i)"
      and e: "map_of durationFormatElements (durationFormatOrder ! nat i) = Some e"
      and v: "elem_value e = of_int (unit_size i)"
    by blast
  have n: "Math_floor (of_int K / of_int (unit_size i)) = K div unit_size i"
    unfolding Math_floor_def by (rule floor_divide_of_int_eq)
  have "K mod unit_size i = K - K div unit_size i * unit_size i"
    by (simp add: minus_div_mult_eq_mod)
  then have r: "(of_int K :: rat) - of_int (K div unit_size i) * of_int (unit_size i)
      = of_int (K mod unit_size i)"
    by simp
  from assms(3) g e v n r splitIntoTimeUnits_loop.simps [of i m "of_int K" units]
  show ?thesis by (simp add: Let_def)
qed

lemma loop_step_round:
  assumes "0 \<le> m" and "m \<le> 3" and "unit_size m dvd K"
  shows "splitIntoTimeUnits_loop m m (of_int K) units =
           Inr (AList.update (durationFormatOrder ! nat m) (K div unit_size m) units)"
proof -
  from order_lookup [OF assms(1,2)] obtain e
    where g: "array_get durationFormatOrder m = Some (durationFormatOrder ! nat m)"
      and e: "map_of durationFormatElements (durationFormatOrder ! nat m) = Some e"
      and v: "elem_value e = of_int (unit_size m)"
    by blast
  from assms(3) have q: "(of_int K :: rat) / of_int (unit_size m) = of_int (K div unit_size m)"
    by (simp add: of_int_div)
  have n: "Math_round (of_int K / of_int (unit_size m)) = K div unit_size m"
    unfolding q by (rule Math_round_of_int)
  from assms(3) have "K div unit_size m * unit_size m = K"
    by simp
  then have "(of_int (K div unit_size m) :: rat) * of_int (unit_size m) = of_int K"
    by (metis of_int_mult)
  then have r: "(of_int K :: rat) - of_int (K div unit_size m) * of_int (unit_size m) = 0"
    by simp
  have p: "splitIntoTimeUnits_loop (m + 1) m 0
      (AList.update (durationFormatOrder ! nat m) (K div unit_size m) units) =
      Inr (AList.update (durationFormatOrder ! nat m) (K div unit_size m) units)"
    by (rule loop_past) simp
  from g e v n r p splitIntoTimeUnits_loop.simps [of m m "of_int K" units]
  show ?thesis by (simp add: Let_def)
qed

lemma digits_single:
  "breakdown_digits K m m = [(durationFormatOrder ! nat m, K div unit_size m)]"
  by (simp add: breakdown_digits_def)

lemma digits_unfold:
  assumes "0 \<le> i" and "i < m" and "m \<le> 3"
  shows "breakdown_digits K i m =
           (durationFormatOrder ! nat i, K div unit_size i) #
           breakdown_digits (K mod unit_size i) (i + 1) m"
proof -
  from assms(2) have up: "[i..m] = i # [i + 1..m]"
    by (simp add: upto_rec1)
  have "(if j = i then K else K mod unit_size (j - 1)) div unit_size j =
        (if j = i + 1 then K mod unit_size i
         else K mod unit_size i mod unit_size (j - 1)) div unit_size j"
    if "j \<in> set [i + 1..m]" for j
  proof (cases "j = i + 1")
    case True
    then show ?thesis by simp
  next
    case False
    with that assms have "0 \<le> i" "i \<le> j - 1" "j - 1 \<le> 3" by simp_all
    from unit_size_dvd [OF this] have "K mod unit_size i mod unit_size (j - 1) =
        K mod unit_size (j - 1)"
      by (rule mod_mod_cancel)
    with False that show ?thesis by simp
  qed
  then show ?thesis
    unfolding breakdown_digits_def up by simp
qed


lemma loop_closed:
  assumes "0 \<le> i" and "i \<le> m" and "m \<le> 3" and "unit_size m dvd K"
    and "\<forall>j. i \<le> j \<and> j \<le> 3 \<longrightarrow> durationFormatOrder ! nat j \<notin> fst ` set units"
  shows "splitIntoTimeUnits_loop i m (of_int K) units = Inr (units @ breakdown_digits K i m)"
  using assms
proof (induction "nat (m - i)" arbitrary: i K units)
  case 0
  then have im: "i = m" by simp
  from "0.prems" have fresh: "durationFormatOrder ! nat m \<notin> fst ` set units"
    unfolding im by simp
  from "0.prems" show ?case
    unfolding im
    by (simp add: loop_step_round update_fresh [OF fresh] digits_single)
next
  case (Suc n)
  then have lt: "i < m" and n: "n = nat (m - (i + 1))" by simp_all
  from Suc.prems lt have i3: "i \<le> 3" by simp
  let ?key = "durationFormatOrder ! nat i"
  let ?K' = "K mod unit_size i"
  from Suc.prems i3 have fresh: "?key \<notin> fst ` set units" by simp
  have step: "splitIntoTimeUnits_loop i m (of_int K) units =
      splitIntoTimeUnits_loop (i + 1) m (of_int ?K') (units @ [(?key, K div unit_size i)])"
    using loop_step_floor [OF Suc.prems(1) i3 lt, of K units] update_fresh [OF fresh]
    by simp
  have d: "unit_size m dvd ?K'"
    using Suc.prems(4) unit_size_dvd [OF Suc.prems(1,2,3)] by (rule dvd_mod)
  have f: "\<forall>j. i + 1 \<le> j \<and> j \<le> 3 \<longrightarrow>
      durationFormatOrder ! nat j \<notin> fst ` set (units @ [(?key, K div unit_size i)])"
  proof (intro allI impI)
    fix j assume j: "i + 1 \<le> j \<and> j \<le> 3"
    with Suc.prems(1) i3 have "durationFormatOrder ! nat j \<noteq> ?key"
      by (intro order_distinct) simp_all
    moreover from j Suc.prems(5) have "durationFormatOrder ! nat j \<notin> fst ` set units"
      by simp
    ultimately show "durationFormatOrder ! nat j \<notin>
        fst ` set (units @ [(?key, K div unit_size i)])"
      by simp
  qed
  from Suc.prems(1) lt have "0 \<le> i + 1" "i + 1 \<le> m" by simp_all
  from Suc.hyps(1) [OF n this Suc.prems(3) d f]
  have "splitIntoTimeUnits_loop (i + 1) m (of_int ?K') (units @ [(?key, K div unit_size i)]) =
      Inr ((units @ [(?key, K div unit_size i)]) @ breakdown_digits ?K' (i + 1) m)" .
  with step show ?case
    by (simp add: digits_unfold [OF Suc.prems(1) lt Suc.prems(3)])
qed

lemma key_value:
  assumes "0 \<le> i" and "i \<le> 3"
  shows "(case map_of durationFormatElements (durationFormatOrder ! nat i) of
            None \<Rightarrow> 0 | Some e \<Rightarrow> elem_value e) = (of_int (unit_size i) :: rat)"
  using order_lookup(2) [OF assms] by auto

lemma total_digits:
  assumes "0 \<le> i" and "i \<le> m" and "m \<le> 3" and "unit_size m dvd K"
  shows "breakdown_total (breakdown_digits K i m) = of_int K"
  using assms
proof (induction "nat (m - i)" arbitrary: i K)
  case 0
  then have im: "i = m" by simp
  from "0.prems"(4) have "K div unit_size m * unit_size m = K" by simp
  then have "(of_int (K div unit_size m) :: rat) * of_int (unit_size m) = of_int K"
    by (metis of_int_mult)
  with "0.prems" show ?case
    unfolding im by (simp add: digits_single breakdown_total_def key_value)
next
  case (Suc n)
  then have lt: "i < m" and n: "n = nat (m - (i + 1))" by simp_all
  from Suc.prems lt have i3: "i \<le> 3" by simp
  have d: "unit_size m dvd K mod unit_size i"
    using Suc.prems(4) unit_size_dvd [OF Suc.prems(1,2,3)] by (rule dvd_mod)
  from Suc.prems(1) lt have "0 \<le> i + 1" "i + 1 \<le> m" by simp_all
  from Suc.hyps(1) [OF n this Suc.prems(3) d]
  have ih: "breakdown_total (breakdown_digits (K mod unit_size i) (i + 1) m) =
      of_int (K mod unit_size i)" .
  have "K div unit_size i * unit_size i + K mod unit_size i = K"
    by simp
  then have "(of_int (K div unit_size i) :: rat) * of_int (unit_size i)
      + of_int (K mod unit_size i) = of_int K"
    by (metis of_int_add of_int_mult)
  with ih show ?case
    using key_value [OF Suc.prems(1) i3]
    by (simp add: digits_unfold [OF Suc.prems(1) lt Suc.prems(3)] breakdown_total_def)
qed

lemma div_less_quotient:
  fixes a b c :: int
  assumes "0 < c" and "a < b * c"
  shows "a div c < b"
proof (rule ccontr)
  assume "\<not> a div c < b"
  then have "b \<le> a div c" by simp
  with assms(1) have "b * c \<le> a div c * c" by (simp add: mult_right_mono)
  also have "\<dots> \<le> a"
    using assms(1) by (simp add: minus_mod_eq_div_mult [symmetric])
  finally show False using assms(2) by simp
qed

lemma digits_nth:
  assumes "i \<le> j" and "j \<le> m"
  shows "breakdown_digits K i m ! nat (j - i) =
           (durationFormatOrder ! nat j,
            (if j = i then K else K mod unit_size (j - 1)) div unit_size j)"
proof -
  from assms have "nat (j - i) < length [i..m]" by simp
  moreover from assms have "[i..m] ! nat (j - i) = j" by simp
  ultimately show ?thesis by (simp add: breakdown_digits_def)
qed

lemma digit_bounds:
  assumes "0 \<le> i" and "i < j" and "j \<le> 3"
  shows "0 \<le> K mod unit_size (j - 1) div unit_size j"
    and "K mod unit_size (j - 1) div unit_size j < unit_size (j - 1) div unit_size j"
proof -
  from assms have j1: "0 \<le> j - 1" "j - 1 \<le> 3" "0 \<le> j" "j - 1 \<le> j" by simp_all
  have pj: "0 < unit_size j" by (rule unit_size_pos [OF j1(3) assms(3)])
  have pj1: "0 < unit_size (j - 1)" by (rule unit_size_pos [OF j1(1,2)])
  have dv: "unit_size j dvd unit_size (j - 1)"
    by (rule unit_size_dvd [OF j1(1) j1(4) assms(3)])
  from pj1 have m0: "0 \<le> K mod unit_size (j - 1)" and
    m1: "K mod unit_size (j - 1) < unit_size (j - 1)" by simp_all
  from m0 pj show "0 \<le> K mod unit_size (j - 1) div unit_size j"
    by (simp add: pos_imp_zdiv_nonneg_iff)
  from dv have "unit_size (j - 1) div unit_size j * unit_size j = unit_size (j - 1)"
    by simp
  with m1 have "K mod unit_size (j - 1) < unit_size (j - 1) div unit_size j * unit_size j"
    by simp
  from div_less_quotient [OF pj this]
  show "K mod unit_size (j - 1) div unit_size j < unit_size (j - 1) div unit_size j" .
qed


lemma splitIntoTimeUnits_closed:
  assumes "0 \<le> i" and "i \<le> m" and "m \<le> 3" and "v = of_int k * of_int (unit_size m)"
  shows "splitIntoTimeUnits v i m = Inr (breakdown_digits (\<bar>k\<bar> * unit_size m) i m)"
    and "breakdown_total (breakdown_digits (\<bar>k\<bar> * unit_size m) i m) = \<bar>v\<bar>"
proof -
  from assms have "0 < unit_size m" by (intro unit_size_pos) simp_all
  then have a: "\<bar>v\<bar> = of_int (\<bar>k\<bar> * unit_size m)"
    unfolding assms(4) by (simp add: abs_mult)
  have d: "unit_size m dvd \<bar>k\<bar> * unit_size m" by simp
  from loop_closed [OF assms(1,2,3) d, of "[]"]
  show "splitIntoTimeUnits v i m = Inr (breakdown_digits (\<bar>k\<bar> * unit_size m) i m)"
    unfolding splitIntoTimeUnits_def a by simp
  from total_digits [OF assms(1,2,3) d]
  show "breakdown_total (breakdown_digits (\<bar>k\<bar> * unit_size m) i m) = \<bar>v\<bar>"
    unfolding a .
qed

lemma digits_keys:
  "map fst (breakdown_digits K i m) = map (\<lambda>j. durationFormatOrder ! nat j) [i..m]"
  by (simp add: breakdown_digits_def comp_def)

lemma known_index:
  assumes "u \<in> set durationFormatOrder"
  shows "0 \<le> array_indexOf durationFormatOrder u"
    and "array_indexOf durationFormatOrder u \<le> 3"
    and "durationFormatOrder ! nat (array_indexOf durationFormatOrder u) = u"
  using assms unfolding known_unit_cases
  by (auto simp add: durationFormatOrder_def)

lemma known_value:
  assumes "u \<in> set durationFormatOrder" and "map_of durationFormatElements u = Some e"
  shows "elem_value e = of_int (unit_size (array_indexOf durationFormatOrder u))"
  using order_lookup(2) [OF known_index(1,2) [OF assms(1)]] assms(2)
  by (simp add: known_index(3) [OF assms(1)])

lemma Math_round_abs:
  shows "0 \<le> x \<Longrightarrow> \<bar>Math_round x\<bar> = Math_round \<bar>x\<bar>"
    and "x < 0 \<Longrightarrow> of_int (Math_round x) \<noteq> x + 1 / 2 \<Longrightarrow> \<bar>Math_round x\<bar> = Math_round \<bar>x\<bar>"
    and "x < 0 \<Longrightarrow> of_int (Math_round x) = x + 1 / 2 \<Longrightarrow>
           \<bar>Math_round x\<bar> = Math_round \<bar>x\<bar> - 1"
proof -
  define n where "n = \<lfloor>x + 1 / 2\<rfloor>"
  have f: "of_int n \<le> x + 1 / 2" "x + 1 / 2 < of_int n + 1"
    unfolding n_def by linarith+
  have mr: "Math_round x = n"
    by (simp add: Math_round_def n_def)
  show "\<bar>Math_round x\<bar> = Math_round \<bar>x\<bar>" if "0 \<le> x"
  proof -
    from that have "0 \<le> \<lfloor>x + 1 / 2\<rfloor>" by simp
    with that show ?thesis by (simp add: Math_round_def)
  qed
  show "\<bar>Math_round x\<bar> = Math_round \<bar>x\<bar>"
    if neg: "x < 0" and ne: "of_int (Math_round x) \<noteq> x + 1 / 2"
  proof -
    from ne have "of_int n \<noteq> x + 1 / 2" unfolding mr .
    with f(1) have lt: "of_int n < x + 1 / 2" by simp
    from neg f(1) have "(of_int n :: rat) < 1" by simp
    then have n0: "n \<le> 0" by simp
    have "\<lfloor>- x + 1 / 2\<rfloor> = - n"
    proof (rule floor_unique)
      from f(2) show "of_int (- n) \<le> - x + 1 / 2" by simp
      from lt show "- x + 1 / 2 < of_int (- n) + 1" by simp
    qed
    moreover from neg have "Math_round \<bar>x\<bar> = \<lfloor>- x + 1 / 2\<rfloor>"
      by (simp add: Math_round_def)
    ultimately show ?thesis
      unfolding mr using n0 by simp
  qed
  show "\<bar>Math_round x\<bar> = Math_round \<bar>x\<bar> - 1"
    if neg: "x < 0" and eq: "of_int (Math_round x) = x + 1 / 2"
  proof -
    from eq have e: "of_int n = x + 1 / 2" unfolding mr .
    from neg f(1) have "(of_int n :: rat) < 1" by simp
    then have n0: "n \<le> 0" by simp
    have "\<lfloor>- x + 1 / 2\<rfloor> = - n + 1"
    proof (rule floor_unique)
      from e show "of_int (- n + 1) \<le> - x + 1 / 2" by simp
      from e show "- x + 1 / 2 < of_int (- n + 1) + 1" by simp
    qed
    moreover from neg have "Math_round \<bar>x\<bar> = \<lfloor>- x + 1 / 2\<rfloor>"
      by (simp add: Math_round_def)
    ultimately show ?thesis
      unfolding mr using n0 by simp
  qed
qed

lemma round_multiple_near:
  fixes mv d :: rat
  assumes "0 < mv"
  shows "2 * \<bar>\<bar>of_int (Math_round (d / mv)) * mv\<bar> - \<bar>d\<bar>\<bar> \<le> mv"
proof -
  let ?r = "of_int (Math_round (d / mv)) :: rat"
  have "2 * \<bar>?r - d / mv\<bar> \<le> 1" by (rule Math_round_nearest)
  with assms have "2 * \<bar>?r - d / mv\<bar> * mv \<le> 1 * mv"
    by (intro mult_right_mono) simp_all
  moreover have "\<bar>?r - d / mv\<bar> * mv = \<bar>?r * mv - d\<bar>"
  proof -
    from assms have "(?r - d / mv) * mv = ?r * mv - d"
      by (simp add: left_diff_distrib)
    then have "\<bar>?r * mv - d\<bar> = \<bar>?r - d / mv\<bar> * \<bar>mv\<bar>"
      by (metis abs_mult)
    with assms show ?thesis by simp
  qed
  ultimately have "2 * \<bar>?r * mv - d\<bar> \<le> mv" by simp
  moreover have "\<bar>\<bar>?r * mv\<bar> - \<bar>d\<bar>\<bar> \<le> \<bar>?r * mv - d\<bar>" by (rule abs_triangle_ineq3)
  ultimately show ?thesis by simp
qed

text \<open>
  Claim C1 says that the breakdown sums to \<open>|d|\<close> rounded to the nearest multiple of the
  value of \<open>minUnit\<close>. The source rounds the signed input, once and before the walk,
  and \<open>splitIntoTimeUnits\<close> takes the absolute value afterwards; \<open>Math.round\<close> sends
  a tie upwards, so for a negative input that lies exactly halfway the sum is one step
  below the rounding of \<open>|d|\<close>: with seconds, \<open>-1500\<close> sums to 1000 where
  \<open>Math.round(1500 / 1000) * 1000\<close> is 2000. The amended claim: for every duration \<open>d\<close>
  and every valid pair of known units (the index of \<open>maxUnit\<close> not above the index of
  \<open>minUnit\<close>), \<open>format\<close> first rounds the whole input once, to
  \<open>Math.round(d / minValue) * minValue\<close>, and the breakdown that
  \<open>splitIntoTimeUnits\<close> returns for it covers the units from \<open>maxUnit\<close> to
  \<open>minUnit\<close> and sums, over the returned units, to the absolute value of that rounded
  input, a multiple of \<open>minValue\<close> at most half of \<open>minValue\<close> away from \<open>|d|\<close>.
  The sum is \<open>Math.round(|d| / minValue) * minValue\<close> whenever \<open>d\<close> is not negative or
  \<open>d / minValue\<close> is not exactly halfway between two integers, and one \<open>minValue\<close>
  less for a negative \<open>d\<close> exactly halfway.
\<close>

theorem format_duration_lossless:
  assumes "maxU \<in> set durationFormatOrder" and "minU \<in> set durationFormatOrder"
    and "array_indexOf durationFormatOrder maxU \<le> array_indexOf durationFormatOrder minU"
    and "map_of durationFormatElements minU = Some e"
  shows "\<exists>f units.
           DurationFormat \<lparr>opt_maxUnit = Some maxU, opt_minUnit = Some minU\<rparr> = Inr f
         \<and> format_input f d = Inr (of_int (Math_round (d / elem_value e)) * elem_value e)
         \<and> splitIntoTimeUnits (of_int (Math_round (d / elem_value e)) * elem_value e)
              (maxUnitIdx f) (minUnitIdx f) = Inr units
         \<and> format_duration f d = Inr units
         \<and> map fst units = map (\<lambda>j. durationFormatOrder ! nat j) [maxUnitIdx f..minUnitIdx f]
         \<and> breakdown_total units = \<bar>of_int (Math_round (d / elem_value e)) * elem_value e\<bar>
         \<and> breakdown_total units = of_int \<bar>Math_round (d / elem_value e)\<bar> * elem_value e
         \<and> 2 * \<bar>breakdown_total units - \<bar>d\<bar>\<bar> \<le> elem_value e
         \<and> (0 \<le> d \<or> of_int (Math_round (d / elem_value e)) \<noteq> d / elem_value e + 1 / 2
              \<longrightarrow> breakdown_total units =
                    of_int (Math_round (\<bar>d\<bar> / elem_value e)) * elem_value e)
         \<and> (d < 0 \<and> of_int (Math_round (d / elem_value e)) = d / elem_value e + 1 / 2
              \<longrightarrow> breakdown_total units =
                    of_int (Math_round (\<bar>d\<bar> / elem_value e) - 1) * elem_value e)"
proof -
  let ?i = "array_indexOf durationFormatOrder maxU"
  let ?m = "array_indexOf durationFormatOrder minU"
  let ?f = "\<lparr>resolved_maxUnit = maxU, resolved_minUnit = minU,
             maxUnitIdx = ?i, minUnitIdx = ?m\<rparr>"
  let ?k = "Math_round (d / elem_value e)"
  let ?v = "of_int ?k * elem_value e"
  let ?units = "breakdown_digits (\<bar>?k\<bar> * unit_size ?m) ?i ?m"
  have mk: "DurationFormat \<lparr>opt_maxUnit = Some maxU, opt_minUnit = Some minU\<rparr> = Inr ?f"
    by (rule DurationFormat_known [OF assms(1,2)])
  have ev: "elem_value e = of_int (unit_size ?m)"
    by (rule known_value [OF assms(2,4)])
  have pos: "0 < elem_value e"
    unfolding ev using unit_size_pos [OF known_index(1,2) [OF assms(2)]] by simp
  have fi: "format_input ?f d = Inr ?v"
    using assms(4) by (simp add: format_input_def Let_def)
  have v: "?v = of_int ?k * of_int (unit_size ?m)"
    by (simp only: ev)
  note cl = splitIntoTimeUnits_closed [OF known_index(1) [OF assms(1)] assms(3)
      known_index(2) [OF assms(2)] v]
  have sp: "splitIntoTimeUnits ?v (maxUnitIdx ?f) (minUnitIdx ?f) = Inr ?units"
    using cl(1) by simp
  have fd: "format_duration ?f d = Inr ?units"
    using fi sp by (simp add: format_duration_def)
  have keys: "map fst ?units = map (\<lambda>j. durationFormatOrder ! nat j) [maxUnitIdx ?f..minUnitIdx ?f]"
    by (simp add: digits_keys)
  have tot: "breakdown_total ?units = \<bar>?v\<bar>" by (rule cl(2))
  have tot': "breakdown_total ?units = of_int \<bar>?k\<bar> * elem_value e"
    unfolding tot using pos by (simp add: abs_mult)
  have near: "2 * \<bar>breakdown_total ?units - \<bar>d\<bar>\<bar> \<le> elem_value e"
    unfolding tot by (rule round_multiple_near [OF pos])
  from pos have ab: "\<bar>d\<bar> / elem_value e = \<bar>d / elem_value e\<bar>"
    by simp
  have same: "breakdown_total ?units = of_int (Math_round (\<bar>d\<bar> / elem_value e)) * elem_value e"
    if "0 \<le> d \<or> of_int ?k \<noteq> d / elem_value e + 1 / 2"
  proof (cases "0 \<le> d")
    case True
    with pos have "0 \<le> d / elem_value e" by simp
    from Math_round_abs(1) [OF this] show ?thesis
      unfolding tot' ab by simp
  next
    case False
    with pos have "d / elem_value e < 0" by (simp add: divide_neg_pos)
    moreover from False that have "of_int ?k \<noteq> d / elem_value e + 1 / 2" by simp
    ultimately have "\<bar>?k\<bar> = Math_round \<bar>d / elem_value e\<bar>"
      by (rule Math_round_abs(2))
    then show ?thesis
      unfolding tot' ab by simp
  qed
  have tie: "breakdown_total ?units =
      of_int (Math_round (\<bar>d\<bar> / elem_value e) - 1) * elem_value e"
    if "d < 0 \<and> of_int ?k = d / elem_value e + 1 / 2"
  proof -
    from that pos have "d / elem_value e < 0" by (simp add: divide_neg_pos)
    moreover from that have "of_int ?k = d / elem_value e + 1 / 2" by simp
    ultimately have "\<bar>?k\<bar> = Math_round \<bar>d / elem_value e\<bar> - 1"
      by (rule Math_round_abs(3))
    then show ?thesis
      unfolding tot' ab by simp
  qed
  from mk fi sp fd keys tot tot' near same tie show ?thesis by blast
qed


theorem format_duration_lossless_witness:
  "\<exists>f units.
      DurationFormat \<lparr>opt_maxUnit = Some ''hour'', opt_minUnit = Some ''second''\<rparr> = Inr f
    \<and> format_duration f 7954800 = Inr units
    \<and> breakdown_total units = 7955000
    \<and> breakdown_total units = of_int (Math_round (\<bar>7954800\<bar> / 1000)) * 1000"
proof -
  let ?e = "\<lparr>elem_value = 1000, elem_token = ''ss''\<rparr>"
  have h: "''hour'' \<in> set durationFormatOrder" "''second'' \<in> set durationFormatOrder"
    "array_indexOf durationFormatOrder ''hour'' \<le> array_indexOf durationFormatOrder ''second''"
    "map_of durationFormatElements ''second'' = Some ?e"
    by (simp_all add: durationFormatOrder_def durationFormatElements_def)
  have r: "\<bar>of_int (Math_round (7954800 / elem_value ?e)) * elem_value ?e\<bar> = (7955000 :: rat)"
    by code_simp
  from format_duration_lossless [OF h, of 7954800] obtain f units
    where a: "DurationFormat \<lparr>opt_maxUnit = Some ''hour'', opt_minUnit = Some ''second''\<rparr> = Inr f"
      and b: "format_duration f 7954800 = Inr units"
      and c: "breakdown_total units =
                \<bar>of_int (Math_round (7954800 / elem_value ?e)) * elem_value ?e\<bar>"
      and s: "0 \<le> (7954800 :: rat) \<or>
                of_int (Math_round (7954800 / elem_value ?e)) \<noteq> 7954800 / elem_value ?e + 1 / 2
              \<longrightarrow> breakdown_total units =
                    of_int (Math_round (\<bar>7954800\<bar> / elem_value ?e)) * elem_value ?e"
    by blast
  from c r have "breakdown_total units = 7955000" by simp
  moreover from s have "breakdown_total units = of_int (Math_round (\<bar>7954800\<bar> / 1000)) * 1000"
    by simp
  ultimately show ?thesis using a b by blast
qed

theorem format_duration_lossless_counterexample:
  "DurationFormat \<lparr>opt_maxUnit = Some ''second'', opt_minUnit = Some ''second''\<rparr>
     = Inr \<lparr>resolved_maxUnit = ''second'', resolved_minUnit = ''second'',
            maxUnitIdx = 2, minUnitIdx = 2\<rparr>
   \<and> format_duration \<lparr>resolved_maxUnit = ''second'', resolved_minUnit = ''second'',
            maxUnitIdx = 2, minUnitIdx = 2\<rparr> (- 1500) = Inr [(''second'', 1)]
   \<and> breakdown_total [(''second'', 1)] = 1000
   \<and> of_int (Math_round (\<bar>- 1500\<bar> / 1000)) * 1000 = (2000 :: rat)"
  by code_simp

lemma format_duration_examples:
  shows "format_duration \<lparr>resolved_maxUnit = ''second'', resolved_minUnit = ''second'',
            maxUnitIdx = 2, minUnitIdx = 2\<rparr> (- 5000) = Inr [(''second'', 5)]"
    and "format_duration \<lparr>resolved_maxUnit = ''hour'', resolved_minUnit = ''second'',
            maxUnitIdx = 0, minUnitIdx = 2\<rparr> 7954800
          = Inr [(''hour'', 2), (''minute'', 12), (''second'', 35)]"
    and "format_duration \<lparr>resolved_maxUnit = ''second'', resolved_minUnit = ''second'',
            maxUnitIdx = 2, minUnitIdx = 2\<rparr> (- 1500) = Inr [(''second'', 1)]"
    and "format_duration \<lparr>resolved_maxUnit = ''second'', resolved_minUnit = ''second'',
            maxUnitIdx = 2, minUnitIdx = 2\<rparr> 1500 = Inr [(''second'', 2)]"
  by code_simp+

lemma unit_size_ratios:
  shows "unit_size 0 div unit_size 1 = 60"
    and "unit_size 1 div unit_size 2 = 60"
    and "unit_size 2 div unit_size 3 = 100"
  by (simp_all add: unit_size_simps)

lemma maxUnit_unbounded:
  "splitIntoTimeUnits 7200000 1 2 = Inr [(''minute'', 120), (''second'', 0)]"
  by code_simp

text \<open>
  Claim C10: for every input that is an integer multiple of the value of \<open>minUnit\<close> and
  every valid pair of indices, \<open>splitIntoTimeUnits\<close> returns one magnitude for each
  unit from \<open>maxUnit\<close> to \<open>minUnit\<close>, in order; every magnitude is a non-negative
  integer, and the magnitude of every unit strictly below \<open>maxUnit\<close> is strictly less
  than the ratio of the value of the next larger unit to its own value (60 for minutes
  and seconds, 100 for the tens of milliseconds). The field of \<open>maxUnit\<close> has no such
  bound: 7200000 ms from minutes down gives 120 minutes.
\<close>

theorem splitIntoTimeUnits_digit_bounds:
  assumes "0 \<le> maxI" and "maxI \<le> minI" and "minI \<le> 3"
    and "map_of durationFormatElements (durationFormatOrder ! nat minI) = Some e"
    and "v = of_int k * elem_value e"
  shows "\<exists>units. splitIntoTimeUnits v maxI minI = Inr units
          \<and> length units = nat (minI - maxI + 1)
          \<and> (\<forall>j. maxI \<le> j \<and> j \<le> minI \<longrightarrow>
                 fst (units ! nat (j - maxI)) = durationFormatOrder ! nat j
               \<and> 0 \<le> snd (units ! nat (j - maxI)))
          \<and> (\<forall>j. maxI < j \<and> j \<le> minI \<longrightarrow>
                 snd (units ! nat (j - maxI)) < unit_size (j - 1) div unit_size j)
          \<and> unit_size 0 div unit_size 1 = 60
          \<and> unit_size 1 div unit_size 2 = 60
          \<and> unit_size 2 div unit_size 3 = 100
          \<and> splitIntoTimeUnits 7200000 1 2 = Inr [(''minute'', 120), (''second'', 0)]"
proof -
  let ?K = "\<bar>k\<bar> * unit_size minI"
  let ?units = "breakdown_digits ?K maxI minI"
  from assms(1,2,3) have m0: "0 \<le> minI" by simp
  from order_lookup(2) [OF m0 assms(3)] assms(4)
  have ev: "elem_value e = of_int (unit_size minI)" by simp
  have v: "v = of_int k * of_int (unit_size minI)"
    unfolding assms(5) ev ..
  have sp: "splitIntoTimeUnits v maxI minI = Inr ?units"
    by (rule splitIntoTimeUnits_closed(1) [OF assms(1,2,3) v])
  have len: "length ?units = nat (minI - maxI + 1)"
    by (simp add: breakdown_digits_def)
  have K0: "0 \<le> ?K"
    using unit_size_pos [OF m0 assms(3)] by simp
  have fstsnd: "fst (?units ! nat (j - maxI)) = durationFormatOrder ! nat j
      \<and> 0 \<le> snd (?units ! nat (j - maxI))"
    if "maxI \<le> j \<and> j \<le> minI" for j
  proof (cases "j = maxI")
    case True
    from that assms have "0 < unit_size j"
      by (intro unit_size_pos) simp_all
    with K0 have "0 \<le> ?K div unit_size j"
      by (simp add: pos_imp_zdiv_nonneg_iff)
    with True that digits_nth [of maxI maxI minI ?K] show ?thesis
      by simp
  next
    case False
    with that assms have "0 \<le> maxI" "maxI < j" "j \<le> 3" by simp_all
    from digit_bounds(1) [OF this, of ?K] False that show ?thesis
      by (simp add: digits_nth)
  qed
  have bound: "snd (?units ! nat (j - maxI)) < unit_size (j - 1) div unit_size j"
    if "maxI < j \<and> j \<le> minI" for j
  proof -
    from that assms have "0 \<le> maxI" "maxI < j" "j \<le> 3" by simp_all
    from digit_bounds(2) [OF this, of ?K] that show ?thesis
      by (simp add: digits_nth)
  qed
  from sp len fstsnd bound unit_size_ratios maxUnit_unbounded show ?thesis
    by blast
qed

theorem splitIntoTimeUnits_digit_bounds_witness:
  "\<exists>units. splitIntoTimeUnits 7954800 0 3 = Inr units
     \<and> length units = 4
     \<and> snd (units ! 1) < 60 \<and> snd (units ! 2) < 60 \<and> snd (units ! 3) < 100"
proof -
  let ?e = "\<lparr>elem_value = 10, elem_token = ''SS''\<rparr>"
  have h: "(0::int) \<le> 0" "(0::int) \<le> 3" "(3::int) \<le> 3"
    "map_of durationFormatElements (durationFormatOrder ! nat 3) = Some ?e"
    "(7954800 :: rat) = of_int 795480 * elem_value ?e"
    by (simp_all add: durationFormatOrder_def durationFormatElements_def)
  from splitIntoTimeUnits_digit_bounds [OF h] obtain units
    where u: "splitIntoTimeUnits 7954800 0 3 = Inr units"
      and l: "length units = nat (3 - 0 + 1)"
      and b: "\<forall>j. 0 < j \<and> j \<le> 3 \<longrightarrow>
                snd (units ! nat (j - 0)) < unit_size (j - 1) div unit_size j"
    by blast
  from b [rule_format, of 1] b [rule_format, of 2] b [rule_format, of 3]
  have "snd (units ! 1) < 60" "snd (units ! 2) < 60" "snd (units ! 3) < 100"
    by (simp_all add: unit_size_simps)
  with u l show ?thesis by auto
qed

section \<open>trimDurationPattern\<close>

lemma indexOf_ge: "- 1 \<le> indexOf s t"
  by (induction s) (simp_all add: Let_def)

lemma indexOf_found:
  "0 \<le> indexOf s t \<Longrightarrow> prefix t (drop (nat (indexOf s t)) s)"
proof (induction s)
  case Nil
  then show ?case by (simp split: if_splits)
next
  case (Cons c cs)
  show ?case
  proof (cases "prefix t (c # cs)")
    case True
    then show ?thesis by simp
  next
    case False
    with Cons.prems have r: "0 \<le> indexOf cs t"
      by (simp add: Let_def split: if_splits)
    with False have "indexOf (c # cs) t = indexOf cs t + 1"
      by (simp add: Let_def)
    moreover from r have "nat (indexOf cs t + 1) = Suc (nat (indexOf cs t))"
      by simp
    ultimately show ?thesis using Cons.IH [OF r] by simp
  qed
qed

lemma indexOf_first:
  "0 \<le> indexOf s t \<Longrightarrow> k < nat (indexOf s t) \<Longrightarrow> \<not> prefix t (drop k s)"
proof (induction s arbitrary: k)
  case Nil
  then show ?case by (simp split: if_splits)
next
  case (Cons c cs)
  show ?case
  proof (cases "prefix t (c # cs)")
    case True
    with Cons.prems show ?thesis by simp
  next
    case False
    with Cons.prems have r: "0 \<le> indexOf cs t"
      by (simp add: Let_def split: if_splits)
    with False have e: "indexOf (c # cs) t = indexOf cs t + 1"
      by (simp add: Let_def)
    show ?thesis
    proof (cases k)
      case 0
      with False show ?thesis by simp
    next
      case (Suc k')
      with Cons.prems(2) e r have "k' < nat (indexOf cs t)" by simp
      from Cons.IH [OF r this] Suc show ?thesis by simp
    qed
  qed
qed

lemma indexOf_absent: "indexOf s t < 0 \<Longrightarrow> \<not> sublist t s"
proof (induction s)
  case Nil
  then show ?case by (simp split: if_splits)
next
  case (Cons c cs)
  then show ?case
    by (auto simp add: Let_def sublist_Cons_right split: if_splits)
qed

lemma indexOf_occurs: "0 \<le> indexOf s t \<longleftrightarrow> sublist t s"
proof
  assume "0 \<le> indexOf s t"
  from indexOf_found [OF this] obtain rest where "drop (nat (indexOf s t)) s = t @ rest"
    by (auto simp add: prefix_def)
  then have "s = take (nat (indexOf s t)) s @ t @ rest"
    by (metis append_take_drop_id)
  then show "sublist t s" unfolding sublist_def by blast
next
  assume "sublist t s"
  with indexOf_absent [of s t] show "0 \<le> indexOf s t" by force
qed

lemma slice_ends:
  assumes "prefix a (drop i s)" and "prefix b (drop j s)" and "i \<le> j"
    and "length a \<le> j - i + length b"
  shows "take (j + length b - i) (drop i s) = take (j - i) (drop i s) @ b"
    and "prefix a (take (j + length b - i) (drop i s))"
proof -
  from assms(3) have n: "j + length b - i = (j - i) + length b" by simp
  from assms(3) have d: "drop (j - i) (drop i s) = drop j s" by simp
  from assms(2) have "take (length b) (drop j s) = b"
    by (auto simp add: prefix_def)
  with d show "take (j + length b - i) (drop i s) = take (j - i) (drop i s) @ b"
    unfolding n take_add by simp
  from assms(1) obtain rest where "drop i s = a @ rest"
    by (auto simp add: prefix_def)
  with assms(4) n show "prefix a (take (j + length b - i) (drop i s))"
    by (simp add: prefix_def)
qed


lemma substring_inside:
  assumes "0 \<le> a" and "a \<le> b" and "b \<le> int (length s)"
  shows "substring s a b = take (nat b - nat a) (drop (nat a) s)"
proof -
  from assms have "min (max a 0) (int (length s)) = a" "min (max b 0) (int (length s)) = b"
    by simp_all
  with assms show ?thesis
    by (simp add: substring_def Let_def nat_diff_distrib)
qed

lemma token_length:
  "map_of durationFormatElements u = Some e \<Longrightarrow> length (elem_token e) = 2"
  by (auto simp add: durationFormatElements_def split: if_splits)

lemma trimDurationPattern_known:
  assumes "map_of durationFormatElements maxUnit = Some maxE"
    and "map_of durationFormatElements minUnit = Some minE"
  shows "trimDurationPattern pattern maxUnit minUnit =
           Inr (substring pattern (indexOf pattern (elem_token maxE))
                  (indexOf pattern (elem_token minE) + int (length (elem_token minE))))"
  using assms by (simp add: trimDurationPattern_def Let_def)

lemma trim_slice:
  assumes la: "length a = 2" and lb: "length b = 2"
    and ia: "0 \<le> indexOf s a" and ib: "0 \<le> indexOf s b"
    and le: "indexOf s a \<le> indexOf s b"
    and r: "r = substring s (indexOf s a) (indexOf s b + int (length b))"
  shows "s = take (nat (indexOf s a)) s @ r @ drop (nat (indexOf s b) + length b) s"
    and "prefix a r" and "suffix b r"
proof -
  define i where "i = nat (indexOf s a)"
  define j where "j = nat (indexOf s b)"
  from ia ib le have ij: "i \<le> j" and i: "indexOf s a = int i" and j: "indexOf s b = int j"
    by (simp_all add: i_def j_def)
  have pa: "prefix a (drop i s)" unfolding i_def by (rule indexOf_found [OF ia])
  have pb: "prefix b (drop j s)" unfolding j_def by (rule indexOf_found [OF ib])
  from pb obtain rest where "drop j s = b @ rest" by (auto simp add: prefix_def)
  then have "length (drop j s) = 2 + length rest" using lb by simp
  then have jl: "j + 2 \<le> length s" by simp
  have "substring s (int i) (int j + int (length b)) =
          take (nat (int j + int (length b)) - nat (int i)) (drop (nat (int i)) s)"
    using ij jl lb by (intro substring_inside) simp_all
  then have r': "r = take (j + length b - i) (drop i s)"
    unfolding r i j by (simp add: nat_add_distrib)
  from la lb ij have "length a \<le> j - i + length b" by simp
  note se = slice_ends [OF pa pb ij this]
  from se(2) r' show "prefix a r" by simp
  from se(1) r' have "r = take (j - i) (drop i s) @ b" by simp
  then show "suffix b r" by (simp add: suffix_def)
  have "drop (j + length b - i) (drop i s) = drop (j + length b) s"
    using ij by simp
  then have "drop i s = r @ drop (j + length b) s"
    unfolding r' by (metis append_take_drop_id)
  then have "s = take i s @ r @ drop (j + length b) s"
    by (metis append_take_drop_id)
  then show "s = take (nat (indexOf s a)) s @ r @ drop (nat (indexOf s b) + length b) s"
    by (simp add: i_def j_def)
qed

text \<open>
  Claim C8 says that \<open>trimDurationPattern\<close> returns the part of the pattern from the
  first occurrence of the token of \<open>maxUnit\<close> to the last character of the token of
  \<open>minUnit\<close>, and that it fails exactly when one of the tokens is absent from the
  pattern. The source never fails for known units: the position of an absent token is
  \<open>-1\<close>, and \<open>substring\<close> clamps and swaps its arguments. With \<open>hh\<close> absent from
  \<open>mm:ss\<close> the result is \<open>mm:ss\<close>; with the tokens in the other order, as in
  \<open>ss:hh\<close>, the result is the text between them. The amended claim: for every pattern
  and every pair of known units, \<open>trimDurationPattern\<close> returns
  \<open>substring(indexOf(maxToken), indexOf(minToken) + length(minToken))\<close> and never
  fails; and if both tokens occur in the pattern and the first occurrence of the token of
  \<open>maxUnit\<close> is not after the first occurrence of the token of \<open>minUnit\<close>, the
  result is the contiguous part of the pattern that starts at the first occurrence of the
  token of \<open>maxUnit\<close> and ends at the last character of the first occurrence of the
  token of \<open>minUnit\<close>.
\<close>

theorem trimDurationPattern_slice:
  assumes "map_of durationFormatElements maxUnit = Some maxE"
    and "map_of durationFormatElements minUnit = Some minE"
  shows "\<exists>r. trimDurationPattern pattern maxUnit minUnit = Inr r
          \<and> r = substring pattern (indexOf pattern (elem_token maxE))
                  (indexOf pattern (elem_token minE) + int (length (elem_token minE)))
          \<and> (sublist (elem_token maxE) pattern \<and> sublist (elem_token minE) pattern
               \<and> indexOf pattern (elem_token maxE) \<le> indexOf pattern (elem_token minE)
              \<longrightarrow> pattern = take (nat (indexOf pattern (elem_token maxE))) pattern @ r @
                    drop (nat (indexOf pattern (elem_token minE)) + length (elem_token minE)) pattern
                \<and> prefix (elem_token maxE) r
                \<and> suffix (elem_token minE) r
                \<and> (\<forall>k < nat (indexOf pattern (elem_token maxE)).
                      \<not> prefix (elem_token maxE) (drop k pattern))
                \<and> (\<forall>k < nat (indexOf pattern (elem_token minE)).
                      \<not> prefix (elem_token minE) (drop k pattern)))"
proof -
  let ?a = "elem_token maxE" and ?b = "elem_token minE"
  let ?r = "substring pattern (indexOf pattern ?a) (indexOf pattern ?b + int (length ?b))"
  have t: "trimDurationPattern pattern maxUnit minUnit = Inr ?r"
    by (rule trimDurationPattern_known [OF assms])
  have "pattern = take (nat (indexOf pattern ?a)) pattern @ ?r @
            drop (nat (indexOf pattern ?b) + length ?b) pattern
        \<and> prefix ?a ?r \<and> suffix ?b ?r
        \<and> (\<forall>k < nat (indexOf pattern ?a). \<not> prefix ?a (drop k pattern))
        \<and> (\<forall>k < nat (indexOf pattern ?b). \<not> prefix ?b (drop k pattern))"
    if occ: "sublist ?a pattern" "sublist ?b pattern"
      and le: "indexOf pattern ?a \<le> indexOf pattern ?b"
  proof -
    from occ have ia: "0 \<le> indexOf pattern ?a" and ib: "0 \<le> indexOf pattern ?b"
      by (simp_all add: indexOf_occurs)
    note ts = trim_slice [OF token_length [OF assms(1)] token_length [OF assms(2)] ia ib le refl]
    from ts indexOf_first [OF ia] indexOf_first [OF ib] show ?thesis by blast
  qed
  with t show ?thesis by blast
qed

theorem trimDurationPattern_slice_witness:
  "trimDurationPattern ''hh:mm:ss.SS'' ''hour'' ''second'' = Inr ''hh:mm:ss''
   \<and> ''hh:mm:ss.SS'' = [] @ ''hh:mm:ss'' @ ''.SS''
   \<and> prefix ''hh'' ''hh:mm:ss'' \<and> suffix ''ss'' ''hh:mm:ss''"
proof -
  have m: "map_of durationFormatElements ''hour'' = Some \<lparr>elem_value = 3600000, elem_token = ''hh''\<rparr>"
    "map_of durationFormatElements ''second'' = Some \<lparr>elem_value = 1000, elem_token = ''ss''\<rparr>"
    by (simp_all add: durationFormatElements_def)
  have i: "indexOf ''hh:mm:ss.SS'' ''hh'' = 0" "indexOf ''hh:mm:ss.SS'' ''ss'' = 6"
    by code_simp+
  have sub: "substring ''hh:mm:ss.SS'' 0 8 = ''hh:mm:ss''"
    by code_simp
  have occ: "sublist ''hh'' ''hh:mm:ss.SS''" "sublist ''ss'' ''hh:mm:ss.SS''"
    using i by (simp_all add: indexOf_occurs [symmetric])
  from trimDurationPattern_slice [OF m, of "''hh:mm:ss.SS''"] occ i sub
  show ?thesis by (simp add: suffix_def)
qed

theorem trimDurationPattern_slice_counterexample:
  "indexOf ''mm:ss'' ''hh'' = - 1
   \<and> trimDurationPattern ''mm:ss'' ''hour'' ''second'' = Inr ''mm:ss''
   \<and> indexOf ''ss:hh'' ''hh'' = 3 \<and> indexOf ''ss:hh'' ''ss'' = 0
   \<and> trimDurationPattern ''ss:hh'' ''hour'' ''second'' = Inr '':''"
  by code_simp

section \<open>getFormattedUnit: the scale\<close>

declare getFormattedUnit_scale.simps [simp del]

lemma getFormattedUnit_scale_find:
  "getFormattedUnit_scale units r v i s =
     (case find (\<lambda>k. v < unit_value (units ! k) * r) [i..<length units] of
        Some k \<Rightarrow> k - 1
      | None \<Rightarrow> if i < length units then length units - 1 else s)"
proof (induction units r v i s rule: getFormattedUnit_scale.induct)
  case (1 units r v i s)
  show ?case
  proof (cases "i < length units")
    case False
    with getFormattedUnit_scale.simps [of units r v i s]
    have "getFormattedUnit_scale units r v i s = s"
      by simp
    with False show ?thesis by simp
  next
    case True
    then have up: "[i..<length units] = i # [i + 1..<length units]"
      by (simp add: upt_conv_Cons)
    show ?thesis
    proof (cases "v < unit_value (units ! i) * r")
      case hit: True
      with True getFormattedUnit_scale.simps [of units r v i s]
      have "getFormattedUnit_scale units r v i s = i - 1"
        by simp
      with hit up show ?thesis by simp
    next
      case miss: False
      show ?thesis
      proof (cases "i = length units - 1")
        case last: True
        with True miss getFormattedUnit_scale.simps [of units r v i s]
        have "getFormattedUnit_scale units r v i s =
            getFormattedUnit_scale units r v (i + 1) i"
          by simp
        also note "1.IH"(1) [OF True miss last]
        finally show ?thesis using True miss last up by simp
      next
        case more: False
        with True miss getFormattedUnit_scale.simps [of units r v i s]
        have "getFormattedUnit_scale units r v i s =
            getFormattedUnit_scale units r v (i + 1) s"
          by simp
        also note "1.IH"(2) [OF True miss more]
        finally show ?thesis using True miss more up by auto
      qed
    qed
  qed
qed

lemma getFormattedUnit_scale_spec:
  "getFormattedUnit_scale units r v 1 0 = selectScale_spec units r v"
proof (cases "1 < length units")
  case True
  then show ?thesis
    by (simp add: getFormattedUnit_scale_find selectScale_spec_def)
next
  case False
  then have "[1..<length units] = []" by simp
  with False show ?thesis
    by (simp add: getFormattedUnit_scale_find selectScale_spec_def)
qed

lemma selectScale_spec_bound:
  assumes "units \<noteq> []"
  shows "selectScale_spec units r v < length units"
proof (cases "find (\<lambda>i. v < unit_value (units ! i) * r) [1..<length units]")
  case None
  with assms show ?thesis by (simp add: selectScale_spec_def)
next
  case (Some i)
  then have "i \<in> set [1..<length units]"
    by (auto simp add: find_Some_iff)
  then have "i < length units" by simp
  with Some show ?thesis by (simp add: selectScale_spec_def)
qed

lemma unit_tables:
  assumes "map_of unitFormatData type = Some units"
    and "map_of unitFormatGroups type = Some g"
  shows "units \<noteq> []
     \<and> (\<forall>u \<in> set units. \<forall>style \<in> set (group_styles g).
          UnitFormat (unit_name u) style = Inr (type @ ''-'' @ unit_name u @ ''-'' @ style))"
proof -
  from assms(1) consider "type = ''duration''" | "type = ''digital''"
    by (auto simp add: unitFormatData_def split: if_splits)
  then show ?thesis
  proof cases
    case 1
    with assms show ?thesis
      by (auto simp add: unitFormatData_def unitFormatGroups_def UnitFormat_def
            getUnitFormatGroupName_def)
  next
    case 2
    with assms show ?thesis
      by (auto simp add: unitFormatData_def unitFormatGroups_def UnitFormat_def
            getUnitFormatGroupName_def)
  qed
qed

lemma getFormattedUnit_1536:
  "getFormattedUnit ''digital'' ''short'' (Finite 1536)
     = Inr (FormatValue ''digital-kilobyte-short'' (Finite (15 / 10)))"
  by code_simp

text \<open>
  Claim C7 gives the scaled value as \<open>round(magnitude / baseValue * 100) / 100\<close>. The
  source computes it on doubles, and the rounding of the quotient and of the product can
  move the product across a half: in the duration group 3618 seconds are 1.005 hours,
  the product is \<open>100.49999999999999\<close>, and the value is 1, where the formula on exact
  numbers gives 1.01. The amended claim: for every unit group of the table (a type with
  its units, rounding factor and styles), every style of the group and every finite
  magnitude \<open>v\<close>, the loop of \<open>getFormattedUnit\<close> picks the first index \<open>i\<close>, from
  the second unit upward, with \<open>v < units[i].value * rounding\<close> and takes the scale
  \<open>i - 1\<close>, or the last unit if there is no such index; the value passed on, under the
  message id type-unit-style of the unit at the scale, is
  \<open>Math.round(v / units[scale].value * 100) / 100\<close> with the quotient, the product and
  the final quotient each rounded to the nearest double. In particular the digital group
  with 1536 gives \<open>kilobyte\<close> with the value 1.5.
\<close>

theorem getFormattedUnit_selects_scale:
  assumes "map_of unitFormatData type = Some units"
    and "map_of unitFormatGroups type = Some g"
    and "style \<in> set (group_styles g)"
    and "scale = selectScale_spec units (group_rounding g) v"
  shows "getFormattedUnit_scale units (group_rounding g) v 1 0 = scale
     \<and> scale < length units
     \<and> getFormattedUnit type style (Finite v) =
         Inr (FormatValue (type @ ''-'' @ unit_name (units ! scale) @ ''-'' @ style)
                (number_divide (Math_round_number (number_times
                   (number_divide (Finite v) (unit_value (units ! scale))) 100)) 100))
     \<and> getFormattedUnit ''digital'' ''short'' (Finite 1536)
         = Inr (FormatValue ''digital-kilobyte-short'' (Finite (15 / 10)))"
proof -
  note t = unit_tables [OF assms(1,2)]
  from t have b: "scale < length units"
    unfolding assms(4) by (intro selectScale_spec_bound) simp
  then have "units ! scale \<in> set units" by simp
  with t assms(3) have u: "UnitFormat (unit_name (units ! scale)) style =
      Inr (type @ ''-'' @ unit_name (units ! scale) @ ''-'' @ style)"
    by blast
  have l: "getFormattedUnit_scale units (group_rounding g) v 1 0 = scale"
    unfolding assms(4) by (rule getFormattedUnit_scale_spec)
  from b have "array_get units (int scale) = Some (units ! scale)"
    by (simp add: array_get_def)
  with assms(1,2,3) l u have "getFormattedUnit type style (Finite v) =
         Inr (FormatValue (type @ ''-'' @ unit_name (units ! scale) @ ''-'' @ style)
                (number_divide (Math_round_number (number_times
                   (number_divide (Finite v) (unit_value (units ! scale))) 100)) 100))"
    by (simp add: getFormattedUnit_def Let_def del: number_divide.simps number_times.simps)
  with l b getFormattedUnit_1536 show ?thesis by blast
qed

theorem getFormattedUnit_selects_scale_witness:
  "getFormattedUnit_scale
     [\<lparr>unit_name = ''second'', unit_value = 1\<rparr>,
      \<lparr>unit_name = ''minute'', unit_value = 60\<rparr>,
      \<lparr>unit_name = ''hour'', unit_value = 60 * 60\<rparr>,
      \<lparr>unit_name = ''day'', unit_value = 24 * 60 * 60\<rparr>,
      \<lparr>unit_name = ''month'', unit_value = 30 * 24 * 60 * 60\<rparr>] 1 90 1 0 = 1
   \<and> getFormattedUnit ''duration'' ''narrow'' (Finite 90)
       = Inr (FormatValue ''duration-minute-narrow'' (Finite (15 / 10)))"
proof -
  let ?units = "[\<lparr>unit_name = ''second'', unit_value = 1\<rparr>,
      \<lparr>unit_name = ''minute'', unit_value = 60\<rparr>,
      \<lparr>unit_name = ''hour'', unit_value = 60 * 60\<rparr>,
      \<lparr>unit_name = ''day'', unit_value = 24 * 60 * 60\<rparr>,
      \<lparr>unit_name = ''month'', unit_value = 30 * 24 * 60 * 60\<rparr>]"
  let ?g = "\<lparr>group_units = [''second'', ''minute'', ''hour'', ''day'', ''month''],
      group_styles = [''narrow''], group_rounding = 1\<rparr>"
  have d: "map_of unitFormatData ''duration'' = Some ?units"
    by (simp add: unitFormatData_def)
  have g: "map_of unitFormatGroups ''duration'' = Some ?g"
    by (simp add: unitFormatGroups_def)
  have st: "''narrow'' \<in> set (group_styles ?g)"
    by simp
  have sc: "1 = selectScale_spec ?units (group_rounding ?g) 90"
    by code_simp
  have u1: "?units ! 1 = \<lparr>unit_name = ''minute'', unit_value = 60\<rparr>"
    by simp
  have r: "number_divide (Math_round_number (number_times
      (number_divide (Finite 90) (unit_value \<lparr>unit_name = ''minute'', unit_value = 60\<rparr>)) 100)) 100
      = Finite (15 / 10)"
    by code_simp
  from getFormattedUnit_selects_scale [OF d g st sc]
  have "getFormattedUnit_scale ?units (group_rounding ?g) 90 1 0 = 1"
    and "getFormattedUnit ''duration'' ''narrow'' (Finite 90) =
         Inr (FormatValue (''duration'' @ ''-'' @ unit_name (?units ! 1) @ ''-'' @ ''narrow'')
                (number_divide (Math_round_number (number_times
                   (number_divide (Finite 90) (unit_value (?units ! 1))) 100)) 100))"
    by blast+
  then show ?thesis
    unfolding u1 r by simp
qed

theorem getFormattedUnit_selects_scale_counterexample:
  "getFormattedUnit ''duration'' ''narrow'' (Finite 3618)
     = Inr (FormatValue ''duration-hour-narrow'' (Finite 1))
   \<and> of_int (Math_round (3618 / 3600 * 100)) / 100 = (101 / 100 :: rat)"
  by code_simp

end
